theory Spec2Isabelle
  imports Complex_Main "HOL-Library.AList" "HOL-Library.Char_ord" "HOL-Library.List_Lexorder"
begin

section \<open>Squash court availability checker: the data of check_squash_availability.py\<close>

subsection \<open>Exceptions and timestamps\<close>

text \<open>
  The exceptions the program can meet. \<open>SystemExit\<close> is what \<open>sys.exit(1)\<close> raises; it
  derives from \<open>BaseException\<close> only, so an \<open>except Exception\<close> clause does not stop it.
  The others derive from \<open>Exception\<close>.
\<close>

datatype py_exception = SystemExit int | TypeError | ValueError


text \<open>
  A \<open>datetime\<close> value: the wall-clock fields as microseconds on the proleptic calendar
  (\<open>local_us\<close>), and the UTC offset in microseconds of an offset-aware value
  (\<open>None\<close> for a naive one).
\<close>

record datetime =
  local_us :: int
  utcoffset :: "int option"

definition us_per_minute :: int where
  "us_per_minute = 60000000"

definition us_per_day :: int where
  "us_per_day = 1440 * us_per_minute"

text \<open>\<open>datetime.date()\<close>: the calendar day of the wall-clock fields, whatever the offset.\<close>

definition date_of :: "datetime \<Rightarrow> int" where
  "date_of d = local_us d div us_per_day"

text \<open>The point on the UTC time line that an offset-aware value denotes (the wall clock itself for a naive one).\<close>

definition instant :: "datetime \<Rightarrow> int" where
  "instant d = (case utcoffset d of None \<Rightarrow> local_us d | Some off \<Rightarrow> local_us d - off)"

text \<open>
  \<open>a < b\<close> on datetimes: two naive values compare by wall clock, two aware values by
  instant, and a naive value against an aware one raises \<open>TypeError\<close>.
\<close>

definition dt_less :: "datetime \<Rightarrow> datetime \<Rightarrow> py_exception + bool" where
  "dt_less a b =
     (case (utcoffset a, utcoffset b) of
        (None, None) \<Rightarrow> Inr (local_us a < local_us b)
      | (Some oa, Some ob) \<Rightarrow> Inr (local_us a - oa < local_us b - ob)
      | _ \<Rightarrow> Inl TypeError)"

text \<open>
  \<open>time_overlaps\<close>: \<open>(slot_start < check_end) and (slot_end > check_start)\<close>. The second
  comparison is only evaluated when the first one is true.
\<close>

definition time_overlaps :: "datetime \<Rightarrow> datetime \<Rightarrow> datetime \<Rightarrow> datetime \<Rightarrow> py_exception + bool" where
  "time_overlaps slot_start slot_end check_start check_end =
     (case dt_less slot_start check_end of
        Inl e \<Rightarrow> Inl e
      | Inr lt \<Rightarrow> if lt then dt_less check_start slot_end else Inr False)"

text \<open>Two timestamps can be compared when both are naive or both are offset-aware.\<close>

definition comparable :: "datetime \<Rightarrow> datetime \<Rightarrow> bool" where
  "comparable a b = ((utcoffset a = None) = (utcoffset b = None))"

subsection \<open>Feed records\<close>

text \<open>
  One embedded location of a slot (an element of \<open>beta:sportsActivityLocation\<close>).
  \<open>loc_name\<close> is \<open>None\<close> when the key \<open>name\<close> is absent or its value is not a string;
  \<open>loc_identifier\<close> is the value of \<open>location.get('identifier', '')\<close>.
\<close>

record location =
  loc_name :: "string option"
  loc_identifier :: string

text \<open>An offer; \<open>offer_price\<close> is \<open>None\<close> when the key \<open>price\<close> is absent.\<close>

record offer =
  offer_price :: "rat option"

text \<open>
  The \<open>data\<close> dictionary of a feed item. A key that the program reads both with and
  without a default is an option (\<open>None\<close>: absent); \<open>facilityUse\<close>, \<open>remainingUses\<close>,
  \<open>offers\<close> and the location list are only read through \<open>get\<close> with the defaults
  \<open>''\<close>, \<open>0\<close>, \<open>[]\<close> and \<open>[]\<close>, which stand for an absent key here.
\<close>

record slot_data =
  slot_identifier :: "string option"
  facilityUse :: string
  startDate :: "string option"
  endDate :: "string option"
  remainingUses :: int
  offers :: "offer list"
  sportsActivityLocation :: "location list"

text \<open>A feed item; \<open>item_data\<close> is \<open>None\<close> when \<open>data\<close> is absent or empty.\<close>

record slot_item =
  item_data :: "slot_data option"

text \<open>A page of the feed: \<open>items\<close> and \<open>next\<close>, each possibly absent.\<close>

record page =
  page_items :: "slot_item list option"
  page_next :: "string option"

text \<open>
  What one HTTP GET gives: a \<open>requests\<close> exception (network error, non-2xx status,
  malformed body) or the decoded page.
\<close>

datatype http_result = RequestException | Response page

text \<open>
  The feed as the program sees it: the answer to the \<open>n\<close>-th request (counted from 0)
  when it is sent to a given URL.
\<close>

type_synonym feed = "nat \<Rightarrow> string \<Rightarrow> http_result"

subsection \<open>PlacesLeisureAPI\<close>

definition BASE_URL :: string where
  "BASE_URL = ''https://opendata.leisurecloud.live/api/feeds/PlacesLeisure-live-slots''"

text \<open>\<open>x or BASE_URL\<close> for an optional string \<open>x\<close>.\<close>

definition or_base :: "string option \<Rightarrow> string" where
  "or_base x = (case x of None \<Rightarrow> BASE_URL | Some u \<Rightarrow> if u = [] then BASE_URL else u)"

text \<open>\<open>fetch_slots\<close>: a \<open>RequestException\<close> is printed and turned into \<open>sys.exit(1)\<close>.\<close>

definition fetch_slots :: "feed \<Rightarrow> nat \<Rightarrow> string option \<Rightarrow> py_exception + page" where
  "fetch_slots fd n after_url =
     (case fd n (or_base after_url) of
        RequestException \<Rightarrow> Inl (SystemExit 1)
      | Response data \<Rightarrow> Inr data)"

text \<open>
  The state in which the loop of \<open>fetch_all_slots\<close> ends: the accumulated items, the number
  of pages requested, and whether the page-count warning was printed.
\<close>

record fetch_state =
  fetched :: "slot_item list"
  pages :: nat
  warned :: bool

text \<open>\<open>not data.get('items') or len(data.get('items', [])) == 0\<close>\<close>

definition no_items :: "page \<Rightarrow> bool" where
  "no_items data = (case page_items data of None \<Rightarrow> True | Some its \<Rightarrow> its = [])"

text \<open>\<open>not next_url\<close>: absent or empty.\<close>

definition falsy :: "string option \<Rightarrow> bool" where
  "falsy x = (case x of None \<Rightarrow> True | Some u \<Rightarrow> u = [])"

text \<open>
  The \<open>while True\<close> loop of \<open>fetch_all_slots\<close>, one call per iteration, with the three
  \<open>break\<close>s in the order of the source.
\<close>

function fetch_loop :: "feed \<Rightarrow> slot_item list \<Rightarrow> string option \<Rightarrow> nat \<Rightarrow> py_exception + fetch_state" where
  "fetch_loop fd all_slots next_url page_count =
     (case fetch_slots fd page_count next_url of
        Inl e \<Rightarrow> Inl e
      | Inr data \<Rightarrow>
          (let page_count' = page_count + 1;
               all_slots' = (case page_items data of None \<Rightarrow> all_slots | Some its \<Rightarrow> all_slots @ its);
               current_url = or_base next_url;
               next_page_url = page_next data
           in if no_items data \<and> next_page_url = Some current_url
              then Inr \<lparr>fetched = all_slots', pages = page_count', warned = False\<rparr>
              else if falsy next_page_url
              then Inr \<lparr>fetched = all_slots', pages = page_count', warned = False\<rparr>
              else if page_count' > 1000
              then Inr \<lparr>fetched = all_slots', pages = page_count', warned = True\<rparr>
              else fetch_loop fd all_slots' next_page_url page_count'))"
  by pat_completeness auto
termination
  by (relation "measure (\<lambda>(fd, all_slots, next_url, page_count). 1001 - page_count)") auto

definition fetch_all_state :: "feed \<Rightarrow> py_exception + fetch_state" where
  "fetch_all_state fd = fetch_loop fd [] None 0"

definition fetch_all_slots :: "feed \<Rightarrow> py_exception + slot_item list" where
  "fetch_all_slots fd = map_sum id fetched (fetch_all_state fd)"

subsection \<open>Page sequences\<close>

text \<open>The items a page carries (none when \<open>items\<close> is absent).\<close>

definition items_of :: "page \<Rightarrow> slot_item list" where
  "items_of p = (case page_items p of None \<Rightarrow> [] | Some its \<Rightarrow> its)"

text \<open>
  Termination signal A at a page answered to a request for \<open>url\<close>: no items, and \<open>next\<close> is
  the URL just requested.
\<close>

definition signal_A :: "page \<Rightarrow> string \<Rightarrow> bool" where
  "signal_A p url = (no_items p \<and> page_next p = Some url)"

text \<open>
  For a sequence of pages \<open>pg\<close>: the value of \<open>next_url\<close> when the \<open>k\<close>-th request is made,
  and the URL that request goes to.
\<close>

fun next_before :: "(nat \<Rightarrow> page) \<Rightarrow> nat \<Rightarrow> string option" where
  "next_before pg 0 = None"
| "next_before pg (Suc k) = page_next (pg k)"

definition request_url :: "(nat \<Rightarrow> page) \<Rightarrow> nat \<Rightarrow> string" where
  "request_url pg k = or_base (next_before pg k)"

text \<open>
  The \<open>k\<close>-th request is answered by page \<open>pg k\<close>, which is not terminal: it has a
  non-empty \<open>next\<close> and does not show signal A.
\<close>

definition continues :: "feed \<Rightarrow> (nat \<Rightarrow> page) \<Rightarrow> nat \<Rightarrow> bool" where
  "continues fd pg k =
     (fd k (request_url pg k) = Response (pg k) \<and> \<not> falsy (page_next (pg k))
      \<and> \<not> signal_A (pg k) (request_url pg k))"

text \<open>
  A feed that follows the protocol for \<open>n\<close> non-terminal pages and then answers with a
  terminal page showing signal A.
\<close>

definition rpde_chain :: "feed \<Rightarrow> (nat \<Rightarrow> page) \<Rightarrow> nat \<Rightarrow> bool" where
  "rpde_chain fd pg n =
     ((\<forall>k<n. continues fd pg k) \<and> fd n (request_url pg n) = Response (pg n)
      \<and> signal_A (pg n) (request_url pg n))"

text \<open>
  An example feed whose cursor is the length of the URL: \<open>m\<close> pages of one item each, every
  \<open>next\<close> a fresh URL, then the terminal page; and the pages it serves, in order.
\<close>

definition cursor_feed :: "nat \<Rightarrow> feed" where
  "cursor_feed m n u =
     (if length u < length BASE_URL + m
      then Response \<lparr>page_items = Some [\<lparr>item_data = None\<rparr>], page_next = Some (u @ ''+'')\<rparr>
      else Response \<lparr>page_items = Some [], page_next = Some u\<rparr>)"

definition cursor_page :: "nat \<Rightarrow> nat \<Rightarrow> page" where
  "cursor_page m k =
     (if k < m
      then \<lparr>page_items = Some [\<lparr>item_data = None\<rparr>],
            page_next = Some (BASE_URL @ replicate (Suc k) CHR ''+'')\<rparr>
      else \<lparr>page_items = Some [], page_next = Some (BASE_URL @ replicate k CHR ''+'')\<rparr>)"

subsection \<open>SquashAvailabilityChecker: aggregation by court\<close>

text \<open>
  One entry of a court's \<open>slots\<close> list, and one value of the \<open>court_info\<close> dictionary.
  The dictionary is an association list in insertion order, as a Python \<open>dict\<close> is.
\<close>

record period =
  p_start :: "string option"
  p_end :: "string option"
  p_remaining :: int

record court =
  court_id :: string
  available :: bool
  remaining_uses :: int
  slots :: "period list"

type_synonym court_info = "(string \<times> court) list"

definition squash_facility_ids :: "string list" where
  "squash_facility_ids = [''041A000005'']"

text \<open>\<open>slot_data.get('identifier', d)\<close>\<close>

definition identifier_or :: "string \<Rightarrow> slot_data \<Rightarrow> string" where
  "identifier_or d sd = (case slot_identifier sd of None \<Rightarrow> d | Some i \<Rightarrow> i)"

text \<open>\<open>offer.get('price', 0)\<close>\<close>

definition price_of :: "offer \<Rightarrow> rat" where
  "price_of off = (case offer_price off of None \<Rightarrow> 0 | Some p \<Rightarrow> p)"

definition period_of :: "slot_data \<Rightarrow> period" where
  "period_of sd = \<lparr>p_start = startDate sd, p_end = endDate sd, p_remaining = remainingUses sd\<rparr>"

definition new_court :: "string \<Rightarrow> court" where
  "new_court cid = \<lparr>court_id = cid, available = False, remaining_uses = 0, slots = []\<rparr>"

text \<open>
  The block that the source repeats three times: create the entry \<open>court_name\<close> if it is
  missing, raise its \<open>remaining_uses\<close> to the maximum, set \<open>available\<close> when the slot has
  remaining uses, and append the slot's period.
\<close>

definition record_slot :: "string \<Rightarrow> string \<Rightarrow> slot_data \<Rightarrow> court_info \<Rightarrow> court_info" where
  "record_slot court_name cid sd info =
     (let c0 = (case map_of info court_name of None \<Rightarrow> new_court cid | Some c \<Rightarrow> c);
          c1 = c0\<lparr>remaining_uses := max (remaining_uses c0) (remainingUses sd)\<rparr>;
          c2 = (if remainingUses sd > 0 then c1\<lparr>available := True\<rparr> else c1);
          c3 = c2\<lparr>slots := slots c2 @ [period_of sd]\<rparr>
      in AList.update court_name c3 info)"

text \<open>\<open>_process_missing_slot\<close>: clear the dictionary and leave one generic entry.\<close>

definition process_missing_slot :: "slot_data \<Rightarrow> court_info \<Rightarrow> court_info" where
  "process_missing_slot sd info =
     [(''Available Courts'',
       \<lparr>court_id = ''partial_booking'', available = (remainingUses sd > 0),
        remaining_uses = remainingUses sd, slots = [period_of sd]\<rparr>)]"

text \<open>The name and id under which \<open>_process_single_slot\<close> files a slot for one location.\<close>

definition location_court_name :: "location \<Rightarrow> string" where
  "location_court_name loc =
     (case loc_name loc of
        Some n \<Rightarrow> if n \<noteq> [] then n else ''Squash Court ('' @ loc_identifier loc @ '')''
      | None \<Rightarrow> ''Squash Court ('' @ loc_identifier loc @ '')'')"

definition location_court_id :: "slot_data \<Rightarrow> location \<Rightarrow> string" where
  "location_court_id sd loc =
     (if loc_identifier loc \<noteq> [] then loc_identifier loc else identifier_or ''Unknown'' sd)"

text \<open>\<open>is_partially_booked\<close> of \<open>_process_single_slot\<close>.\<close>

definition is_partially_booked :: "slot_data \<Rightarrow> bool" where
  "is_partially_booked sd =
     (remainingUses sd = 0 \<and> (case offers sd of [] \<Rightarrow> False | off # _ \<Rightarrow> price_of off > 0))"

text \<open>The part of \<open>_process_single_slot\<close> before the partially-booked test.\<close>

definition fan_out :: "slot_data \<Rightarrow> court_info \<Rightarrow> court_info" where
  "fan_out sd info =
     (if sportsActivityLocation sd = []
      then record_slot (''Squash Court ('' @ identifier_or ''Unknown'' sd @ '')'')
             (identifier_or ''Unknown'' sd) sd info
      else foldl (\<lambda>ci loc. record_slot (location_court_name loc) (location_court_id sd loc) sd ci)
             info (sportsActivityLocation sd))"

definition missing_slot_data :: "slot_data \<Rightarrow> slot_data" where
  "missing_slot_data sd =
     \<lparr>slot_identifier = None, facilityUse = [], startDate = startDate sd, endDate = endDate sd,
      remainingUses = 1, offers = [\<lparr>offer_price = Some 0\<rparr>],
      sportsActivityLocation = sportsActivityLocation sd\<rparr>"

definition process_single_slot :: "slot_data \<Rightarrow> court_info \<Rightarrow> court_info" where
  "process_single_slot sd info =
     (let info' = fan_out sd info
      in if is_partially_booked sd \<and> length (sportsActivityLocation sd) = 2
         then process_missing_slot (missing_slot_data sd) info'
         else info')"

text \<open>
  \<open>_process_multiple_court_slots\<close>: the court inferred from remaining uses and price, then
  the first location of the slot with exactly that name, if any, for the id.
\<close>

text \<open>\<open>offers[0].get('price', 0) if offers else 0\<close>\<close>

definition first_price :: "slot_data \<Rightarrow> rat" where
  "first_price sd = (case offers sd of [] \<Rightarrow> 0 | off # _ \<Rightarrow> price_of off)"

definition target_court :: "slot_data \<Rightarrow> string \<times> string" where
  "target_court sd =
     (let price = first_price sd
      in if remainingUses sd > 0 \<and> price > 0
         then (''Squash Court 2'', ''041ZSQU002'')
         else (''Squash Court 1'', ''041ZSQU001''))"

definition resolve_court :: "slot_data \<Rightarrow> string \<times> string" where
  "resolve_court sd =
     (case find (\<lambda>loc. loc_name loc = Some (fst (target_court sd))) (sportsActivityLocation sd) of
        Some loc \<Rightarrow> (fst (target_court sd), loc_identifier loc)
      | None \<Rightarrow> target_court sd)"

definition process_multiple_court_slots :: "slot_data list \<Rightarrow> court_info \<Rightarrow> court_info" where
  "process_multiple_court_slots slot_group info =
     foldl (\<lambda>ci sd. record_slot (fst (resolve_court sd)) (snd (resolve_court sd)) sd ci)
       info (sort_key (identifier_or []) slot_group)"

text \<open>\<open>str.split(sep)\<close> for a one-character separator.\<close>

fun split_on :: "char \<Rightarrow> string \<Rightarrow> string list" where
  "split_on sep [] = [[]]"
| "split_on sep (c # cs) =
     (if c = sep then [] # split_on sep cs
      else (case split_on sep cs of [] \<Rightarrow> [[c]] | w # ws \<Rightarrow> (c # w) # ws))"

text \<open>\<open>facility_use.split('/')[-1] if '/' in facility_use else facility_use\<close>\<close>

definition facility_id_of :: "string \<Rightarrow> string" where
  "facility_id_of facility_use =
     (if CHR ''/'' \<in> set facility_use then last (split_on CHR ''/'' facility_use) else facility_use)"

text \<open>The test by which \<open>get_squash_court_availability\<close> admits a slot.\<close>

definition admitted :: "slot_data \<Rightarrow> bool" where
  "admitted sd = (facility_id_of (facilityUse sd) \<in> set squash_facility_ids)"

text \<open>\<open>time_slots\<close>: the admitted slots grouped by their \<open>startDate\<close> string, groups in order of first appearance.\<close>

definition add_to_group :: "slot_data \<Rightarrow> (string \<times> slot_data list) list \<Rightarrow> (string \<times> slot_data list) list" where
  "add_to_group sd time_slots =
     (let start_time = (case startDate sd of None \<Rightarrow> [] | Some s \<Rightarrow> s)
      in AList.update start_time
           ((case map_of time_slots start_time of None \<Rightarrow> [] | Some g \<Rightarrow> g) @ [sd]) time_slots)"

fun group_by_start :: "slot_item list \<Rightarrow> (string \<times> slot_data list) list \<Rightarrow> (string \<times> slot_data list) list" where
  "group_by_start [] time_slots = time_slots"
| "group_by_start (slot_item # rest) time_slots =
     (case item_data slot_item of
        None \<Rightarrow> group_by_start rest time_slots
      | Some sd \<Rightarrow>
          if \<not> admitted sd then group_by_start rest time_slots
          else group_by_start rest (add_to_group sd time_slots))"

definition process_group :: "slot_data list \<Rightarrow> court_info \<Rightarrow> court_info" where
  "process_group slot_group info =
     (case slot_group of
        [sd] \<Rightarrow> process_single_slot sd info
      | _ \<Rightarrow> process_multiple_court_slots slot_group info)"

definition get_squash_court_availability :: "slot_item list \<Rightarrow> court_info" where
  "get_squash_court_availability slots_in =
     foldl (\<lambda>info (start_time, slot_group). process_group slot_group info) []
       (group_by_start slots_in [])"

subsection \<open>Library functions\<close>

text \<open>
  The functions of the Python library that the program calls on strings of dates. They
  are parameters of the model: \<open>fromisoformat s\<close> is the value of
  \<open>datetime.fromisoformat(s.replace('Z', '+00:00'))\<close> (\<open>None\<close> when it raises
  \<open>ValueError\<close>); \<open>strptime_ymd s\<close> is the day number of a date string under the format
  \<open>%Y-%m-%d\<close> (\<open>None\<close> when it does not match); \<open>strftime_ymd\<close> formats a day number
  back; \<open>str_of_exception\<close> is \<open>str(e)\<close>.
\<close>

record py_lib =
  fromisoformat :: "string \<Rightarrow> datetime option"
  strptime_ymd :: "string \<Rightarrow> int option"
  strftime_ymd :: "int \<Rightarrow> string"
  str_of_exception :: "py_exception \<Rightarrow> string"

text \<open>
  \<open>strptime(s, "%H:%M")\<close> on ASCII strings, as minutes after midnight: one or two digits
  for the hour (00 to 23), a colon, one or two digits for the minute (00 to 59), and
  nothing else.
\<close>

definition digit_of :: "char \<Rightarrow> nat option" where
  "digit_of c =
     map_of [(CHR ''0'', 0), (CHR ''1'', 1), (CHR ''2'', 2), (CHR ''3'', 3), (CHR ''4'', 4),
             (CHR ''5'', 5), (CHR ''6'', 6), (CHR ''7'', 7), (CHR ''8'', 8), (CHR ''9'', 9)] c"

definition two_digits :: "nat \<Rightarrow> string \<Rightarrow> nat option" where
  "two_digits bound s =
     (case s of
        [a] \<Rightarrow> digit_of a
      | [a, b] \<Rightarrow>
          (case (digit_of a, digit_of b) of
             (Some x, Some y) \<Rightarrow> if 10 * x + y < bound then Some (10 * x + y) else None
           | _ \<Rightarrow> None)
      | _ \<Rightarrow> None)"

definition strptime_HM :: "string \<Rightarrow> nat option" where
  "strptime_HM s =
     (case dropWhile (\<lambda>c. c \<noteq> CHR '':'') s of
        [] \<Rightarrow> None
      | _ # mm \<Rightarrow>
          (case (two_digits 24 (takeWhile (\<lambda>c. c \<noteq> CHR '':'') s), two_digits 60 mm) of
             (Some h, Some m) \<Rightarrow> Some (60 * h + m)
           | _ \<Rightarrow> None))"

text \<open>\<open>strftime("%H:%M")\<close> of a time given as minutes after midnight.\<close>

definition digit_char :: "nat \<Rightarrow> char" where
  "digit_char n = ''0123456789'' ! (n mod 10)"

definition strftime_HM :: "nat \<Rightarrow> string" where
  "strftime_HM t =
     [digit_char (t div 600), digit_char (t div 60), CHR '':'',
      digit_char (t mod 60 div 10), digit_char (t mod 60)]"

text \<open>\<open>str(n)\<close> for a natural number.\<close>

fun str_nat :: "nat \<Rightarrow> string" where
  "str_nat n = (if n < 10 then [digit_char n] else str_nat (n div 10) @ [digit_char n])"

subsection \<open>SquashAvailabilityChecker: filtering by time\<close>

text \<open>
  \<open>parse_datetime\<close>: \<open>strptime\<close> of the date, a space and the time under
  \<open>%Y-%m-%d %H:%M\<close>; a \<open>ValueError\<close> is printed and turned into \<open>sys.exit(1)\<close>. The result
  is naive.
\<close>

definition parse_datetime :: "py_lib \<Rightarrow> string \<Rightarrow> string \<Rightarrow> py_exception + datetime" where
  "parse_datetime lib date_str time_str =
     (case (strptime_ymd lib date_str, strptime_HM time_str) of
        (Some day, Some t) \<Rightarrow>
          Inr \<lparr>local_us = day * us_per_day + int t * us_per_minute, utcoffset = None\<rparr>
      | _ \<Rightarrow> Inl (SystemExit 1))"

text \<open>\<open>facility_id in facility_use\<close>: the substring test on strings.\<close>

fun is_substring :: "string \<Rightarrow> string \<Rightarrow> bool" where
  "is_substring p [] = (p = [])"
| "is_substring p (c # cs) = (take (length p) (c # cs) = p \<or> is_substring p cs)"

definition is_squash :: "string \<Rightarrow> bool" where
  "is_squash facility_use = list_ex (\<lambda>facility_id. is_substring facility_id facility_use) squash_facility_ids"

text \<open>\<open>d.replace(tzinfo=tz) if d.tzinfo is None\<close>\<close>

definition adopt_tz :: "datetime \<Rightarrow> datetime \<Rightarrow> datetime" where
  "adopt_tz target slot = (if utcoffset target = None then target\<lparr>utcoffset := utcoffset slot\<rparr> else target)"

text \<open>
  The loop of \<open>filter_squash_slots_by_time\<close>. \<open>target_start\<close> and \<open>target_end\<close> are
  reassigned inside the loop and keep their new value for the following items. A missing
  key or a \<open>ValueError\<close> skips the item; a \<open>TypeError\<close> from a comparison is not caught.
\<close>

fun filter_loop :: "py_lib \<Rightarrow> slot_item list \<Rightarrow> datetime \<Rightarrow> datetime \<Rightarrow> slot_item list
    \<Rightarrow> py_exception + slot_item list" where
  "filter_loop lib [] target_start target_end filtered_slots = Inr filtered_slots"
| "filter_loop lib (slot_item # rest) target_start target_end filtered_slots =
     (case item_data slot_item of
        None \<Rightarrow> filter_loop lib rest target_start target_end filtered_slots
      | Some sd \<Rightarrow>
          if \<not> is_squash (facilityUse sd)
          then filter_loop lib rest target_start target_end filtered_slots
          else
            (case (case startDate sd of None \<Rightarrow> None | Some s \<Rightarrow> fromisoformat lib s) of
               None \<Rightarrow> filter_loop lib rest target_start target_end filtered_slots
             | Some slot_start \<Rightarrow>
                 (case (case endDate sd of None \<Rightarrow> None | Some s \<Rightarrow> fromisoformat lib s) of
                    None \<Rightarrow> filter_loop lib rest target_start target_end filtered_slots
                  | Some slot_end \<Rightarrow>
                      (let target_start' = adopt_tz target_start slot_start;
                           target_end' = adopt_tz target_end slot_end
                       in if date_of slot_start = date_of target_start'
                          then
                            (case time_overlaps slot_start slot_end target_start' target_end' of
                               Inl e \<Rightarrow> Inl e
                             | Inr overlap \<Rightarrow>
                                 filter_loop lib rest target_start' target_end'
                                   (if overlap then filtered_slots @ [slot_item] else filtered_slots))
                          else filter_loop lib rest target_start' target_end' filtered_slots))))"

definition filter_squash_slots_by_time :: "py_lib \<Rightarrow> slot_item list \<Rightarrow> string \<Rightarrow> string \<Rightarrow> string
    \<Rightarrow> py_exception + slot_item list" where
  "filter_squash_slots_by_time lib slots_in target_date start_time end_time =
     (case parse_datetime lib target_date start_time of
        Inl e \<Rightarrow> Inl e
      | Inr target_start \<Rightarrow>
          (case parse_datetime lib target_date end_time of
             Inl e \<Rightarrow> Inl e
           | Inr target_end \<Rightarrow> filter_loop lib slots_in target_start target_end []))"

subsection \<open>The two windows and the report\<close>

text \<open>What \<open>check_squash_availability\<close> returns.\<close>

record availability =
  main_court_info :: court_info
  before_court_info :: court_info
  main_start :: string
  main_end :: string
  before_start :: string
  before_end :: string

definition check_squash_availability :: "py_lib \<Rightarrow> feed \<Rightarrow> string \<Rightarrow> string \<Rightarrow> py_exception + availability" where
  "check_squash_availability lib fd target_date start_time =
     (case strptime_HM start_time of
        None \<Rightarrow> Inl ValueError
      | Some t \<Rightarrow>
          (let m_start = start_time;
               m_end = strftime_HM ((t + 40) mod 1440);
               b_start = strftime_HM (nat ((int t - 40) mod 1440));
               b_end = start_time
           in case fetch_all_slots fd of
                Inl e \<Rightarrow> Inl e
              | Inr all_slots \<Rightarrow>
                  (case filter_squash_slots_by_time lib all_slots target_date m_start m_end of
                     Inl e \<Rightarrow> Inl e
                   | Inr main_slots \<Rightarrow>
                       (case filter_squash_slots_by_time lib all_slots target_date b_start b_end of
                          Inl e \<Rightarrow> Inl e
                        | Inr before_slots \<Rightarrow>
                            Inr \<lparr>main_court_info = get_squash_court_availability main_slots,
                                 before_court_info = get_squash_court_availability before_slots,
                                 main_start = m_start, main_end = m_end,
                                 before_start = b_start, before_end = b_end\<rparr>))))"

text \<open>
  The dictionary that \<open>check_availability_programmatic\<close> returns: the keys \<open>success\<close>,
  \<open>message\<close> and \<open>booking_url\<close> are always there, \<open>error\<close> only in the error result, the
  counts and the availability only in the normal result.
\<close>

record report =
  success :: bool
  message :: string
  booking_url :: string
  error :: "string option"
  main_slot_available :: "nat option"
  before_slot_available :: "nat option"
  details :: "availability option"

text \<open>
  How a call of \<open>check_availability_programmatic\<close> ends: it returns a report, or a
  \<open>SystemExit\<close> leaves it (the \<open>except Exception\<close> clause does not catch it).
\<close>

datatype outcome = Returns report | Exits int

definition count_available :: "court_info \<Rightarrow> nat" where
  "count_available info = length (filter (\<lambda>(court_name, court_data). available court_data) info)"

definition before_message :: "nat \<Rightarrow> string" where
  "before_message before_available =
     (if before_available > 0
      then (if before_available = 1 then ''There is one slot free before your booking''
            else ''There are '' @ str_nat before_available @ '' slots free before your booking'')
      else ''There is no slots free before your booking'')"

definition generic_booking_url :: string where
  "generic_booking_url = ''https://placesleisure.gladstonego.cloud/book/calendar/041A000005''"

definition error_result :: "py_lib \<Rightarrow> py_exception \<Rightarrow> report" where
  "error_result lib e =
     \<lparr>success = False,
      message = ''Error checking availability: '' @ str_of_exception lib e,
      booking_url = generic_booking_url,
      error = Some (str_of_exception lib e),
      main_slot_available = None, before_slot_available = None, details = None\<rparr>"

text \<open>\<open>strftime("%Y-%m-%dT%H:%M:%S.000Z")\<close> of a time given in minutes on the calendar.\<close>

definition strftime_utc :: "py_lib \<Rightarrow> int \<Rightarrow> string" where
  "strftime_utc lib minutes =
     strftime_ymd lib (minutes div 1440) @ ''T'' @ strftime_HM (nat (minutes mod 1440)) @ '':00.000Z''"

text \<open>The booking URL of the normal result; the \<open>strptime\<close> in it can raise \<open>ValueError\<close>.\<close>

definition build_booking_url :: "py_lib \<Rightarrow> string \<Rightarrow> string \<Rightarrow> py_exception + string" where
  "build_booking_url lib target_date b_start =
     (case (strptime_ymd lib target_date, strptime_HM b_start) of
        (Some day, Some t) \<Rightarrow>
          Inr (generic_booking_url @ ''?activityDate='' @ strftime_utc lib (day * 1440 + int t)
               @ ''&previousActivityDate='' @ strftime_utc lib (day * 1440 + int t - 40))
      | _ \<Rightarrow> Inl ValueError)"

definition check_availability_programmatic :: "py_lib \<Rightarrow> feed \<Rightarrow> string \<Rightarrow> string \<Rightarrow> outcome" where
  "check_availability_programmatic lib fd target_date start_time =
     (case (case check_squash_availability lib fd target_date start_time of
              Inl e \<Rightarrow> Inl e
            | Inr av \<Rightarrow>
                (let main_available = count_available (main_court_info av);
                     before_available = count_available (before_court_info av)
                 in case build_booking_url lib target_date (before_start av) of
                      Inl e \<Rightarrow> Inl e
                    | Inr url \<Rightarrow>
                        Inr \<lparr>success = (before_available > 0),
                             message = before_message before_available,
                             booking_url = url,
                             error = None,
                             main_slot_available = Some main_available,
                             before_slot_available = Some before_available,
                             details = Some av\<rparr>)) of
        Inr result \<Rightarrow> Returns result
      | Inl (SystemExit code) \<Rightarrow> Exits code
      | Inl e \<Rightarrow> Returns (error_result lib e))"

subsection \<open>Notions used to state the properties of the aggregation\<close>

text \<open>An entry is consistent when its flag says whether one of its periods has remaining uses.\<close>

definition consistent :: "court \<Rightarrow> bool" where
  "consistent c = (available c = list_ex (\<lambda>p. p_remaining p > 0) (slots c))"

definition all_consistent :: "court_info \<Rightarrow> bool" where
  "all_consistent info = list_all (\<lambda>(court_name, c). consistent c) info"

text \<open>The number of periods recorded in a dictionary, over all its entries.\<close>

definition total_periods :: "court_info \<Rightarrow> nat" where
  "total_periods info = sum_list (map (\<lambda>(court_name, c). length (slots c)) info)"

text \<open>The names of the entries that hold a given period.\<close>

definition holders :: "period \<Rightarrow> court_info \<Rightarrow> string list" where
  "holders p info = map fst (filter (\<lambda>(court_name, c). p \<in> set (slots c)) info)"

text \<open>The condition under which \<open>_process_single_slot\<close> calls \<open>_process_missing_slot\<close>.\<close>

definition reconstructs :: "slot_data \<Rightarrow> bool" where
  "reconstructs sd = (is_partially_booked sd \<and> length (sportsActivityLocation sd) = 2)"

definition synthetic_entry :: "slot_data \<Rightarrow> string \<times> court" where
  "synthetic_entry sd =
     (''Available Courts'',
      \<lparr>court_id = ''partial_booking'', available = True, remaining_uses = 1,
       slots = [\<lparr>p_start = startDate sd, p_end = endDate sd, p_remaining = 1\<rparr>]\<rparr>)"

text \<open>The slots that \<open>get_squash_court_availability\<close> admits, in feed order.\<close>

definition admitted_data :: "slot_item list \<Rightarrow> slot_data list" where
  "admitted_data slots_in = filter admitted (List.map_filter item_data slots_in)"

text \<open>The admitted slots that are alone in their start-time group.\<close>

definition lone_slots :: "slot_item list \<Rightarrow> slot_data list" where
  "lone_slots slots_in =
     concat (map (\<lambda>(start_time, g). case g of [sd] \<Rightarrow> [sd] | _ \<Rightarrow> [])
       (group_by_start slots_in []))"

text \<open>The number of periods a group adds when no reconstruction happens.\<close>

definition group_periods :: "slot_data list \<Rightarrow> nat" where
  "group_periods g =
     (case g of [sd] \<Rightarrow> max 1 (length (sportsActivityLocation sd)) | _ \<Rightarrow> length g)"

text \<open>An entry \<open>c\<close> is kept in \<open>c'\<close>: same id, and the periods of \<open>c\<close> are still there, in front.\<close>

definition kept :: "court \<Rightarrow> court \<Rightarrow> bool" where
  "kept c c' = (court_id c' = court_id c \<and> (\<exists>ps. slots c' = slots c @ ps))"

subsection \<open>Example records\<close>

definition squash_use :: string where
  "squash_use = ''https://opendata.leisurecloud.live/api/facility-uses/041A000005''"

definition two_courts :: "location list" where
  "two_courts =
     [\<lparr>loc_name = Some ''Squash Court 1'', loc_identifier = ''041ZSQU001''\<rparr>,
      \<lparr>loc_name = Some ''Squash Court 2'', loc_identifier = ''041ZSQU002''\<rparr>]"

text \<open>A slot at 09:20 with one remaining use, price 10.25, and both courts as locations.\<close>

definition free_slot :: slot_data where
  "free_slot =
     \<lparr>slot_identifier = Some ''1001'', facilityUse = squash_use,
      startDate = Some ''2026-02-03T09:20:00Z'', endDate = Some ''2026-02-03T10:00:00Z'',
      remainingUses = 1, offers = [\<lparr>offer_price = Some 10.25\<rparr>],
      sportsActivityLocation = two_courts\<rparr>"

text \<open>The same slot fully used but still priced: the partially-booked pattern.\<close>

definition booked_half :: slot_data where
  "booked_half = free_slot\<lparr>remainingUses := 0\<rparr>"

text \<open>A booked slot at the same start time, with no price and no locations.\<close>

definition booked_slot :: slot_data where
  "booked_slot =
     \<lparr>slot_identifier = Some ''1002'', facilityUse = squash_use,
      startDate = Some ''2026-02-03T09:20:00Z'', endDate = Some ''2026-02-03T10:00:00Z'',
      remainingUses = 0, offers = [\<lparr>offer_price = Some 0\<rparr>],
      sportsActivityLocation = []\<rparr>"

text \<open>An earlier slot, alone at its start time, with one location.\<close>

definition early_slot :: slot_data where
  "early_slot =
     \<lparr>slot_identifier = Some ''1000'', facilityUse = squash_use,
      startDate = Some ''2026-02-03T08:40:00Z'', endDate = Some ''2026-02-03T09:20:00Z'',
      remainingUses = 1, offers = [\<lparr>offer_price = Some 10.25\<rparr>],
      sportsActivityLocation = [\<lparr>loc_name = Some ''Squash Court 1'', loc_identifier = ''041ZSQU001''\<rparr>]\<rparr>"

text \<open>One iteration of the loop of \<open>_process_multiple_court_slots\<close>.\<close>

definition court_step :: "court_info \<Rightarrow> slot_data \<Rightarrow> court_info" where
  "court_step ci sd = record_slot (fst (resolve_court sd)) (snd (resolve_court sd)) sd ci"

text \<open>The partially-booked pattern without locations.\<close>

definition no_location_slot :: slot_data where
  "no_location_slot = booked_half\<lparr>sportsActivityLocation := []\<rparr>"

subsection \<open>Notions used to state the properties of the windows\<close>

text \<open>
  The parsed start and end of an item, when the loop of \<open>filter_squash_slots_by_time\<close>
  gets as far as comparing them: the item has data, passes the substring test, and both
  of its timestamps are there and parse.
\<close>

definition slot_times :: "py_lib \<Rightarrow> slot_item \<Rightarrow> (datetime \<times> datetime) option" where
  "slot_times lib slot_item =
     (case item_data slot_item of
        None \<Rightarrow> None
      | Some sd \<Rightarrow>
          if \<not> is_squash (facilityUse sd) then None
          else
            (case (case startDate sd of None \<Rightarrow> None | Some s \<Rightarrow> fromisoformat lib s) of
               None \<Rightarrow> None
             | Some slot_start \<Rightarrow>
                 (case (case endDate sd of None \<Rightarrow> None | Some s \<Rightarrow> fromisoformat lib s) of
                    None \<Rightarrow> None
                  | Some slot_end \<Rightarrow> Some (slot_start, slot_end))))"

text \<open>All compared timestamps of a feed carry one UTC offset \<open>tz\<close> (or none, for \<open>tz = None\<close>).\<close>

definition one_offset :: "py_lib \<Rightarrow> int option \<Rightarrow> slot_item list \<Rightarrow> bool" where
  "one_offset lib tz its =
     list_all (\<lambda>it. case slot_times lib it of
                       None \<Rightarrow> True
                     | Some (slot_start, slot_end) \<Rightarrow>
                         utcoffset slot_start = tz \<and> utcoffset slot_end = tz) its"

text \<open>No compared item lasts longer than \<open>limit\<close> microseconds.\<close>

definition lasting_at_most :: "py_lib \<Rightarrow> int \<Rightarrow> slot_item list \<Rightarrow> bool" where
  "lasting_at_most lib limit its =
     list_all (\<lambda>it. case slot_times lib it of
                       None \<Rightarrow> True
                     | Some (slot_start, slot_end) \<Rightarrow>
                         instant slot_end - instant slot_start \<le> limit) its"

text \<open>The report of a call that returned one.\<close>

fun outcome_report :: "outcome \<Rightarrow> report option" where
  "outcome_report (Returns r) = Some r"
| "outcome_report (Exits code) = None"

subsection \<open>Example library values and feeds\<close>

text \<open>
  The values of the library functions on the strings of the examples below (day 739650
  is 2026-02-03 in the proleptic Gregorian ordinal); no other string is used.
\<close>

definition at_minute :: "int \<Rightarrow> int \<Rightarrow> int \<Rightarrow> datetime" where
  "at_minute day minute offset_minutes =
     \<lparr>local_us = day * us_per_day + minute * us_per_minute,
      utcoffset = Some (offset_minutes * us_per_minute)\<rparr>"

definition example_fromisoformat :: "string \<Rightarrow> datetime option" where
  "example_fromisoformat s =
     map_of
       [(''2026-02-02T23:40:00Z'', at_minute 739649 1420 0),
        (''2026-02-03T00:20:00Z'', at_minute 739650 20 0),
        (''2026-02-03T08:40:00Z'', at_minute 739650 520 0),
        (''2026-02-03T09:20:00Z'', at_minute 739650 560 0),
        (''2026-02-03T10:00:00Z'', at_minute 739650 600 0),
        (''2026-02-03T23:30:00Z'', at_minute 739650 1410 0),
        (''2026-02-04T00:10:00Z'', at_minute 739651 10 0),
        (''2026-02-03T23:50:00+12:00'', at_minute 739650 1430 720),
        (''2026-02-03T00:30:00-12:00'', at_minute 739650 30 (- 720))] s"

definition example_lib :: py_lib where
  "example_lib =
     \<lparr>fromisoformat = example_fromisoformat,
      strptime_ymd = map_of [(''2026-02-03'', 739650)],
      strftime_ymd = (\<lambda>day. if day = 739650 then ''2026-02-03''
                              else if day = 739649 then ''2026-02-02'' else ''2026-02-04''),
      str_of_exception = (\<lambda>e. case e of
          TypeError \<Rightarrow> ''cannot compare offset-naive and offset-aware datetimes''
        | ValueError \<Rightarrow> ''time data does not match format''
        | SystemExit code \<Rightarrow> ''1'')\<rparr>"

text \<open>A feed with one page of items, followed by the terminal page.\<close>

definition one_page_feed :: "slot_item list \<Rightarrow> feed" where
  "one_page_feed its n url =
     (if url = BASE_URL
      then Response \<lparr>page_items = Some its, page_next = Some (BASE_URL @ ''?afterTimestamp=1'')\<rparr>
      else Response \<lparr>page_items = Some [], page_next = Some url\<rparr>)"


text \<open>A free squash slot from 23:30 to 00:10 on the next day.\<close>

definition late_slot :: slot_data where
  "late_slot =
     \<lparr>slot_identifier = Some ''2001'', facilityUse = squash_use,
      startDate = Some ''2026-02-03T23:30:00Z'', endDate = Some ''2026-02-04T00:10:00Z'',
      remainingUses = 1, offers = [\<lparr>offer_price = Some 10.25\<rparr>],
      sportsActivityLocation = []\<rparr>"

text \<open>A free squash slot from 23:40 on the day before to 00:20.\<close>

definition midnight_slot :: slot_data where
  "midnight_slot =
     \<lparr>slot_identifier = Some ''2002'', facilityUse = squash_use,
      startDate = Some ''2026-02-02T23:40:00Z'', endDate = Some ''2026-02-03T00:20:00Z'',
      remainingUses = 1, offers = [\<lparr>offer_price = Some 10.25\<rparr>],
      sportsActivityLocation = []\<rparr>"

text \<open>
  A free squash slot of 40 minutes whose start is written with the offset +12:00 and
  whose end with the offset -12:00.
\<close>

definition odd_offset_slot :: slot_data where
  "odd_offset_slot =
     \<lparr>slot_identifier = Some ''2003'', facilityUse = squash_use,
      startDate = Some ''2026-02-03T23:50:00+12:00'', endDate = Some ''2026-02-03T00:30:00-12:00'',
      remainingUses = 1, offers = [\<lparr>offer_price = Some 10.25\<rparr>],
      sportsActivityLocation = []\<rparr>"

text \<open>A slot whose \<open>facilityUse\<close> has the squash id in a segment that is not the last one.\<close>

definition nested_use_slot :: slot_data where
  "nested_use_slot =
     free_slot\<lparr>facilityUse := ''https://opendata.leisurecloud.live/api/facility-uses/041A000005/slots''\<rparr>"

text \<open>A target bound is naive or carries the offset \<open>tz\<close>.\<close>

definition tz_ok :: "int option \<Rightarrow> datetime \<Rightarrow> bool" where
  "tz_ok tz d = (utcoffset d = None \<or> utcoffset d = tz)"

section \<open>Properties\<close>

subsection \<open>The overlap predicate\<close>

lemma dt_less_comparable:
  "comparable a b \<Longrightarrow> dt_less a b = Inr (instant a < instant b)"
  by (auto simp: comparable_def dt_less_def instant_def split: option.splits)

text \<open>
  Claim C7. \<open>time_overlaps\<close> is strict half-open interval overlap: for timestamps
  \<open>a, b, c, d\<close> that Python can compare with each other (all naive or all offset-aware),
  \<open>time_overlaps a b c d\<close> returns true exactly when \<open>a < d\<close> and \<open>b > c\<close>. Consequently it
  returns false whenever \<open>b \<le> c\<close>, and an endpoint that equals the other interval's opposite
  endpoint (\<open>b = c\<close>, or \<open>a = d\<close>) is not an overlap.
\<close>

theorem time_overlaps_half_open:
  assumes "comparable a d" and "comparable c b"
  shows "time_overlaps a b c d = Inr (instant a < instant d \<and> instant b > instant c)
       \<and> (instant b \<le> instant c \<longrightarrow> time_overlaps a b c d = Inr False)
       \<and> (instant a = instant d \<longrightarrow> time_overlaps a b c d = Inr False)"
  using assms by (auto simp: time_overlaps_def dt_less_comparable)

theorem time_overlaps_half_open_witness:
  "comparable \<lparr>local_us = 600, utcoffset = Some 0\<rparr> \<lparr>local_us = 640, utcoffset = Some 0\<rparr>
   \<and> time_overlaps \<lparr>local_us = 600, utcoffset = Some 0\<rparr> \<lparr>local_us = 640, utcoffset = Some 0\<rparr>
        \<lparr>local_us = 640, utcoffset = Some 0\<rparr> \<lparr>local_us = 680, utcoffset = Some 0\<rparr> = Inr False
   \<and> time_overlaps \<lparr>local_us = 600, utcoffset = Some 0\<rparr> \<lparr>local_us = 640, utcoffset = Some 0\<rparr>
        \<lparr>local_us = 620, utcoffset = Some 0\<rparr> \<lparr>local_us = 660, utcoffset = Some 0\<rparr> = Inr True"
  using time_overlaps_half_open [of "\<lparr>local_us = 600, utcoffset = Some 0\<rparr>"
      "\<lparr>local_us = 680, utcoffset = Some 0\<rparr>" "\<lparr>local_us = 640, utcoffset = Some 0\<rparr>"
      "\<lparr>local_us = 640, utcoffset = Some 0\<rparr>"]
    time_overlaps_half_open [of "\<lparr>local_us = 600, utcoffset = Some 0\<rparr>"
      "\<lparr>local_us = 660, utcoffset = Some 0\<rparr>" "\<lparr>local_us = 620, utcoffset = Some 0\<rparr>"
      "\<lparr>local_us = 640, utcoffset = Some 0\<rparr>"]
  by (simp add: comparable_def instant_def)

subsection \<open>Pagination\<close>

declare fetch_loop.simps [simp del]

lemma or_base_nonempty: "or_base x \<noteq> []"
  by (simp add: or_base_def BASE_URL_def split: option.splits)

lemma signal_A_not_falsy: "signal_A p (or_base x) \<Longrightarrow> \<not> falsy (page_next p)"
  by (simp add: signal_A_def falsy_def or_base_nonempty)

lemma fetch_loop_continue:
  assumes "continues fd pg k" and "k < 1000"
  shows "fetch_loop fd acc (next_before pg k) k
         = fetch_loop fd (acc @ items_of (pg k)) (next_before pg (Suc k)) (Suc k)"
  using assms
  by (subst fetch_loop.simps)
     (auto simp add: continues_def request_url_def fetch_slots_def signal_A_def items_of_def Let_def
           split: option.splits)

lemma fetch_loop_ceiling:
  assumes "continues fd pg k" and "k \<ge> 1000"
  shows "fetch_loop fd acc (next_before pg k) k
         = Inr \<lparr>fetched = acc @ items_of (pg k), pages = Suc k, warned = True\<rparr>"
  using assms
  by (subst fetch_loop.simps)
     (auto simp add: continues_def request_url_def fetch_slots_def signal_A_def items_of_def Let_def
           split: option.splits)

lemma fetch_loop_signal_A:
  assumes "fd k (request_url pg k) = Response (pg k)" and "signal_A (pg k) (request_url pg k)"
  shows "fetch_loop fd acc (next_before pg k) k
         = Inr \<lparr>fetched = acc, pages = Suc k, warned = False\<rparr>"
  using assms
  by (subst fetch_loop.simps)
     (auto simp add: request_url_def fetch_slots_def signal_A_def no_items_def
           split: option.splits)

lemma fetch_loop_run:
  assumes "\<forall>k. j \<le> k \<and> k < n \<longrightarrow> continues fd pg k" and "j \<le> n" and "n \<le> 1000"
  shows "fetch_loop fd acc (next_before pg j) j
         = fetch_loop fd (acc @ concat (map (\<lambda>k. items_of (pg k)) [j..<n])) (next_before pg n) n"
  using assms
proof (induction "n - j" arbitrary: j acc)
  case 0
  then show ?case by simp
next
  case (Suc d)
  then have jn: "j < n" by simp
  with Suc.prems have c: "continues fd pg j" and lt: "j < 1000" by auto
  have "fetch_loop fd acc (next_before pg j) j
        = fetch_loop fd (acc @ items_of (pg j)) (next_before pg (Suc j)) (Suc j)"
    by (rule fetch_loop_continue [OF c lt])
  also have "\<dots> = fetch_loop fd ((acc @ items_of (pg j)) @ concat (map (\<lambda>k. items_of (pg k)) [Suc j..<n]))
                    (next_before pg n) n"
    using Suc.hyps(2) Suc.prems jn by (intro Suc.hyps(1)) auto
  finally show ?case using jn by (simp add: upt_conv_Cons)
qed

lemma fetch_loop_pages:
  "fetch_loop fd acc nu k = Inr st \<Longrightarrow> pages st \<le> max (Suc k) 1001"
proof (induction fd acc nu k rule: fetch_loop.induct)
  case (1 fd all_slots next_url page_count)
  show ?case
  proof (cases "fetch_slots fd page_count next_url")
    case (Inl e)
    with "1.prems" show ?thesis by (subst (asm) fetch_loop.simps) simp
  next
    case (Inr data)
    show ?thesis
      using "1.prems" "1.IH" [OF Inr refl refl refl refl] Inr
      apply (subst (asm) fetch_loop.simps)
      apply (auto simp: Let_def split: if_splits)
      done
  qed
qed

lemma fetch_loop_returns:
  assumes "\<forall>n u. fd n u \<noteq> RequestException"
  shows "\<exists>st. fetch_loop fd acc nu k = Inr st"
  using assms
proof (induction fd acc nu k rule: fetch_loop.induct)
  case (1 fd all_slots next_url page_count)
  show ?case
  proof (cases "fetch_slots fd page_count next_url")
    case (Inl e)
    with "1.prems" show ?thesis by (simp add: fetch_slots_def split: http_result.splits)
  next
    case (Inr data)
    show ?thesis
      using "1.IH" [OF Inr refl refl refl refl] Inr "1.prems"
      by (subst fetch_loop.simps) (auto simp: Let_def)
  qed
qed

lemma fetch_loop_chain:
  assumes "\<forall>k<n. continues fd pg k" and "n \<le> 1000"
  shows "fetch_loop fd [] None 0
         = fetch_loop fd (concat (map (\<lambda>k. items_of (pg k)) [0..<n])) (next_before pg n) n"
  using fetch_loop_run [of 0 n fd pg "[]"] assms by simp

lemma fetch_all_state_terminal:
  assumes "rpde_chain fd pg n" and "n \<le> 1000"
  shows "fetch_all_state fd
         = Inr \<lparr>fetched = concat (map (\<lambda>k. items_of (pg k)) [0..<n]), pages = Suc n,
                warned = False\<rparr>"
proof -
  from assms have c: "\<forall>k<n. continues fd pg k" and r: "fd n (request_url pg n) = Response (pg n)"
    and a: "signal_A (pg n) (request_url pg n)"
    by (simp_all add: rpde_chain_def)
  show ?thesis
    unfolding fetch_all_state_def
    by (simp add: fetch_loop_chain [OF c assms(2)] fetch_loop_signal_A [where fd = fd and pg = pg and k = n, OF r a])
qed

lemma fetch_all_state_ceiling:
  assumes "\<forall>k\<le>1000. continues fd pg k"
  shows "fetch_all_state fd
         = Inr \<lparr>fetched = concat (map (\<lambda>k. items_of (pg k)) [0..<1001]), pages = 1001,
                warned = True\<rparr>"
proof -
  from assms have c: "\<forall>k<1000. continues fd pg k" and l: "continues fd pg 1000"
    by simp_all
  have u: "[0..<1001] = [0..<1000] @ [1000::nat]"
    using upt_Suc_append [of 0 1000] by simp
  show ?thesis
    unfolding fetch_all_state_def
    by (simp add: fetch_loop_chain [OF c] fetch_loop_ceiling [OF l] u)
qed

lemma request_url_cursor:
  "k \<le> m \<Longrightarrow> request_url (cursor_page m) k = BASE_URL @ replicate k CHR ''+''"
  by (cases k) (simp_all add: request_url_def or_base_def cursor_page_def BASE_URL_def)

lemma continues_cursor: "k < m \<Longrightarrow> continues (cursor_feed m) (cursor_page m) k"
  by (simp add: continues_def request_url_cursor cursor_feed_def cursor_page_def falsy_def
      signal_A_def no_items_def replicate_append_same)

lemma rpde_chain_cursor: "rpde_chain (cursor_feed m) (cursor_page m) m"
  by (simp add: rpde_chain_def continues_cursor request_url_cursor cursor_feed_def
      cursor_page_def signal_A_def no_items_def)

lemma length_cursor_items:
  "j \<le> m \<Longrightarrow> length (concat (map (\<lambda>k. items_of (cursor_page m k)) [0..<j])) = j"
  by (induction j) (simp_all add: items_of_def cursor_page_def)

text \<open>
  Claim C5 (amended). For every sequence of pages in which each non-terminal page has a
  non-empty \<open>next\<close> leading to the following page and the terminal page has no items and a
  \<open>next\<close> equal to the URL just requested: when there are at most 1001 non-terminal pages,
  \<open>fetch_all_slots\<close> returns exactly the concatenation of the non-terminal pages' items in
  arrival order, without deduplication; when there are at most 1000, it stops at the
  terminal page itself (one request per page, no warning). At the terminal page the
  fallback stop does not apply, since its \<open>next\<close> is not empty: signal A is what stops the loop.
\<close>

theorem fetch_all_slots_concat:
  assumes "rpde_chain fd pg n"
  shows "(n \<le> 1001 \<longrightarrow> fetch_all_slots fd = Inr (concat (map (\<lambda>k. items_of (pg k)) [0..<n])))
       \<and> (n \<le> 1000 \<longrightarrow> fetch_all_state fd
              = Inr \<lparr>fetched = concat (map (\<lambda>k. items_of (pg k)) [0..<n]),
                     pages = Suc n, warned = False\<rparr>)
       \<and> \<not> falsy (page_next (pg n))"
proof (intro conjI impI)
  show "\<not> falsy (page_next (pg n))"
    using assms signal_A_not_falsy [of "pg n" "next_before pg n"]
    by (simp add: rpde_chain_def request_url_def)
next
  assume "n \<le> 1000"
  then show "fetch_all_state fd
      = Inr \<lparr>fetched = concat (map (\<lambda>k. items_of (pg k)) [0..<n]), pages = Suc n,
             warned = False\<rparr>"
    by (rule fetch_all_state_terminal [OF assms])
next
  assume n: "n \<le> 1001"
  show "fetch_all_slots fd = Inr (concat (map (\<lambda>k. items_of (pg k)) [0..<n]))"
  proof (cases "n \<le> 1000")
    case True
    then show ?thesis
      by (simp add: fetch_all_slots_def fetch_all_state_terminal [OF assms])
  next
    case False
    with n have e: "n = 1001" by simp
    with assms have "\<forall>k\<le>1000. continues fd pg k"
      by (simp add: rpde_chain_def)
    then show ?thesis
      by (simp add: fetch_all_slots_def fetch_all_state_ceiling e)
  qed
qed

theorem fetch_all_slots_concat_witness:
  "rpde_chain (cursor_feed 2) (cursor_page 2) 2
   \<and> fetch_all_slots (cursor_feed 2) = Inr [\<lparr>item_data = None\<rparr>, \<lparr>item_data = None\<rparr>]
   \<and> fetch_all_state (cursor_feed 2)
       = Inr \<lparr>fetched = [\<lparr>item_data = None\<rparr>, \<lparr>item_data = None\<rparr>], pages = 3, warned = False\<rparr>"
proof -
  have u: "[0..<2] = [0, Suc 0]" by (simp add: upt_rec)
  show ?thesis
    using fetch_all_slots_concat [OF rpde_chain_cursor [of 2]] rpde_chain_cursor [of 2]
    by (simp add: u items_of_def cursor_page_def)
qed

text \<open>
  The claim without the bound fails: with 1002 non-terminal pages the page-count ceiling
  stops the loop after 1001 requests, and the item of the last non-terminal page is missing.
\<close>

theorem fetch_all_slots_concat_counterexample:
  "rpde_chain (cursor_feed 1002) (cursor_page 1002) 1002
   \<and> fetch_all_slots (cursor_feed 1002)
       \<noteq> Inr (concat (map (\<lambda>k. items_of (cursor_page 1002 k)) [0..<1002]))"
proof -
  define got where "got = concat (map (\<lambda>k. items_of (cursor_page 1002 k)) [0..<1001])"
  define claimed where "claimed = concat (map (\<lambda>k. items_of (cursor_page 1002 k)) [0..<1002])"
  have "\<forall>k\<le>1000. continues (cursor_feed 1002) (cursor_page 1002) k"
    by (simp add: continues_cursor)
  then have run: "fetch_all_slots (cursor_feed 1002) = Inr got"
    by (simp add: fetch_all_slots_def fetch_all_state_ceiling got_def)
  have "length got = 1001"
    unfolding got_def by (rule length_cursor_items) simp
  moreover have "length claimed = 1002"
    unfolding claimed_def by (rule length_cursor_items) simp
  ultimately have "got \<noteq> claimed" by auto
  with run show ?thesis
    using rpde_chain_cursor [of 1002] by (simp add: claimed_def)
qed

text \<open>
  Claim C6. For every feed whose requests are answered, \<open>fetch_all_slots\<close> returns after at
  most 1001 page requests. In particular a feed that never shows signal A and always
  supplies a non-empty \<open>next\<close> is cut off by the ceiling: the loop ends after the 1001st
  page with the warning printed and returns the items of the pages read so far.
\<close>

theorem fetch_all_slots_ceiling:
  "((\<forall>n u. fd n u \<noteq> RequestException) \<longrightarrow>
      (\<exists>st. fetch_all_state fd = Inr st \<and> fetch_all_slots fd = Inr (fetched st)
            \<and> pages st \<le> 1001))
   \<and> ((\<forall>k\<le>1000. continues fd pg k) \<longrightarrow>
        fetch_all_state fd
          = Inr \<lparr>fetched = concat (map (\<lambda>k. items_of (pg k)) [0..<1001]), pages = 1001,
                 warned = True\<rparr>)"
proof (intro conjI impI)
  assume "\<forall>n u. fd n u \<noteq> RequestException"
  then obtain st where st: "fetch_loop fd [] None 0 = Inr st"
    using fetch_loop_returns by blast
  then have "pages st \<le> 1001"
    using fetch_loop_pages [OF st] by simp
  with st show "\<exists>st. fetch_all_state fd = Inr st \<and> fetch_all_slots fd = Inr (fetched st)
      \<and> pages st \<le> 1001"
    by (simp add: fetch_all_state_def fetch_all_slots_def)
next
  assume "\<forall>k\<le>1000. continues fd pg k"
  then show "fetch_all_state fd
      = Inr \<lparr>fetched = concat (map (\<lambda>k. items_of (pg k)) [0..<1001]), pages = 1001,
             warned = True\<rparr>"
    by (rule fetch_all_state_ceiling)
qed

theorem fetch_all_slots_ceiling_witness:
  "fetch_all_state (cursor_feed 2000)
     = Inr \<lparr>fetched = concat (map (\<lambda>k. items_of (cursor_page 2000 k)) [0..<1001]),
            pages = 1001, warned = True\<rparr>
   \<and> (\<exists>st. fetch_all_state (cursor_feed 2000) = Inr st
           \<and> fetch_all_slots (cursor_feed 2000) = Inr (fetched st) \<and> pages st \<le> 1001)"
proof -
  have a: "\<forall>n u. cursor_feed 2000 n u \<noteq> RequestException"
    by (simp add: cursor_feed_def)
  have b: "\<forall>k\<le>1000. continues (cursor_feed 2000) (cursor_page 2000) k"
    by (simp add: continues_cursor)
  show ?thesis
    using fetch_all_slots_ceiling [of "cursor_feed 2000" "cursor_page 2000"] a b by blast
qed

subsection \<open>Aggregation by court\<close>

lemma record_slot_alt:
  "record_slot n cid sd info =
     AList.update n
       ((case map_of info n of None \<Rightarrow> new_court cid | Some c \<Rightarrow> c)
          \<lparr>remaining_uses := max (remaining_uses (case map_of info n of None \<Rightarrow> new_court cid | Some c \<Rightarrow> c)) (remainingUses sd),
           available := (available (case map_of info n of None \<Rightarrow> new_court cid | Some c \<Rightarrow> c) \<or> remainingUses sd > 0),
           slots := slots (case map_of info n of None \<Rightarrow> new_court cid | Some c \<Rightarrow> c) @ [period_of sd]\<rparr>) info"
  by (simp add: record_slot_def Let_def)

lemma map_of_record_slot:
  "map_of (record_slot n cid sd info) k =
     (if k = n
      then Some \<lparr>court_id = (case map_of info n of None \<Rightarrow> cid | Some c \<Rightarrow> court_id c),
                 available = ((case map_of info n of None \<Rightarrow> False | Some c \<Rightarrow> available c) \<or> remainingUses sd > 0),
                 remaining_uses = max (case map_of info n of None \<Rightarrow> 0 | Some c \<Rightarrow> remaining_uses c) (remainingUses sd),
                 slots = (case map_of info n of None \<Rightarrow> [] | Some c \<Rightarrow> slots c) @ [period_of sd]\<rparr>
      else map_of info k)"
  by (auto simp: record_slot_alt update_conv' new_court_def split: option.splits)

lemma total_periods_update:
  "total_periods (AList.update n c info)
     + (case map_of info n of None \<Rightarrow> 0 | Some c0 \<Rightarrow> length (slots c0))
   = total_periods info + length (slots c)"
  by (induction info) (auto simp: total_periods_def split: option.splits)

lemma total_periods_record_slot:
  "total_periods (record_slot n cid sd info) = Suc (total_periods info)"
proof -
  define c0 where "c0 = (case map_of info n of None \<Rightarrow> new_court cid | Some c \<Rightarrow> c)"
  define c3 where "c3 = c0\<lparr>remaining_uses := max (remaining_uses c0) (remainingUses sd),
      available := (available c0 \<or> remainingUses sd > 0), slots := slots c0 @ [period_of sd]\<rparr>"
  have old: "(case map_of info n of None \<Rightarrow> 0 | Some c \<Rightarrow> length (slots c)) = length (slots c0)"
    by (simp add: c0_def new_court_def split: option.splits)
  have "length (slots c3) = Suc (length (slots c0))"
    by (simp add: c3_def)
  with total_periods_update [of n c3 info] old
  have "total_periods (AList.update n c3 info) = Suc (total_periods info)"
    by simp
  then show ?thesis
    unfolding record_slot_alt c0_def [symmetric] c3_def [symmetric] .
qed

lemma set_update_subset: "set (AList.update n v info) \<subseteq> insert (n, v) (set info)"
  by (induction info) auto

lemma consistent_extend:
  "consistent c \<Longrightarrow>
   consistent (c\<lparr>remaining_uses := r, available := (available c \<or> remainingUses sd > 0),
                 slots := slots c @ [period_of sd]\<rparr>)"
  by (auto simp: consistent_def period_of_def)

lemma consistent_record_slot:
  assumes "\<forall>(k, c)\<in>set info. consistent c"
  shows "\<forall>(k, c)\<in>set (record_slot n cid sd info). consistent c"
proof -
  define c0 where "c0 = (case map_of info n of None \<Rightarrow> new_court cid | Some c \<Rightarrow> c)"
  have "consistent c0"
    using assms by (auto simp: c0_def consistent_def new_court_def split: option.splits dest: map_of_SomeD)
  then have "consistent (c0\<lparr>remaining_uses := max (remaining_uses c0) (remainingUses sd),
      available := (available c0 \<or> remainingUses sd > 0), slots := slots c0 @ [period_of sd]\<rparr>)"
    by (rule consistent_extend)
  then show ?thesis
    using assms set_update_subset [of n _ info]
    unfolding record_slot_alt c0_def [symmetric] by blast
qed

lemma foldl_preserves:
  assumes "\<And>acc x. P acc \<Longrightarrow> P (f acc x)" and "P a"
  shows "P (foldl f a xs)"
  using assms(2) by (induction xs arbitrary: a) (simp_all add: assms(1))

lemma foldl_total:
  assumes "\<And>acc x. x \<in> set xs \<Longrightarrow> t (f acc x) = t acc + w x"
  shows "t (foldl f a xs) = t a + sum_list (map w xs)"
  using assms by (induction xs arbitrary: a) (simp_all add: add.assoc)

lemma process_single_slot_reconstructs:
  "reconstructs sd \<Longrightarrow> process_single_slot sd info = [synthetic_entry sd]"
  by (simp add: reconstructs_def process_single_slot_def process_missing_slot_def
      missing_slot_data_def synthetic_entry_def period_of_def)

lemma process_single_slot_plain:
  "\<not> reconstructs sd \<Longrightarrow> process_single_slot sd info = fan_out sd info"
  by (auto simp add: reconstructs_def process_single_slot_def)

lemma total_periods_fan_out:
  "total_periods (fan_out sd info) = total_periods info + max 1 (length (sportsActivityLocation sd))"
proof (cases "sportsActivityLocation sd = []")
  case True
  then show ?thesis by (simp add: fan_out_def total_periods_record_slot)
next
  case False
  then have m: "max 1 (length (sportsActivityLocation sd)) = length (sportsActivityLocation sd)"
    by (cases "sportsActivityLocation sd") simp_all
  have "total_periods (foldl (\<lambda>ci loc. record_slot (location_court_name loc) (location_court_id sd loc) sd ci)
          info locs) = total_periods info + sum_list (map (\<lambda>loc. 1) locs)" for locs
    by (rule foldl_total) (simp add: total_periods_record_slot)
  with False m show ?thesis by (simp add: fan_out_def sum_list_triv)
qed

lemma total_periods_multiple:
  "total_periods (process_multiple_court_slots g info) = total_periods info + length g"
proof -
  have "total_periods (foldl (\<lambda>ci sd. record_slot (fst (resolve_court sd)) (snd (resolve_court sd)) sd ci)
          info xs) = total_periods info + sum_list (map (\<lambda>sd. 1) xs)" for xs
    by (rule foldl_total) (simp add: total_periods_record_slot)
  then show ?thesis by (simp add: process_multiple_court_slots_def sum_list_triv)
qed

lemma total_periods_group:
  assumes "\<forall>sd. g = [sd] \<longrightarrow> \<not> reconstructs sd"
  shows "total_periods (process_group g info) = total_periods info + group_periods g"
proof (cases "\<exists>sd. g = [sd]")
  case True
  then obtain sd where g: "g = [sd]" by blast
  with assms have "\<not> reconstructs sd" by simp
  with g show ?thesis
    by (simp add: process_group_def group_periods_def process_single_slot_plain total_periods_fan_out)
next
  case False
  then have "process_group g info = process_multiple_court_slots g info"
    by (auto simp: process_group_def split: list.splits)
  moreover from False have "group_periods g = length g"
    by (auto simp: group_periods_def split: list.splits)
  ultimately show ?thesis by (simp add: total_periods_multiple)
qed

lemma all_consistent_record_slot:
  "all_consistent info \<Longrightarrow> all_consistent (record_slot n cid sd info)"
  using consistent_record_slot [of info n cid sd]
  by (simp add: all_consistent_def list_all_iff)

lemma all_consistent_fan_out: "all_consistent info \<Longrightarrow> all_consistent (fan_out sd info)"
  unfolding fan_out_def
  by (auto intro: all_consistent_record_slot foldl_preserves [where P = all_consistent])

lemma all_consistent_single:
  "all_consistent info \<Longrightarrow> all_consistent (process_single_slot sd info)"
proof (cases "reconstructs sd")
  case True
  then show ?thesis
    by (simp add: process_single_slot_reconstructs all_consistent_def synthetic_entry_def
        consistent_def)
next
  case False
  assume "all_consistent info"
  with False show ?thesis
    by (simp add: process_single_slot_plain all_consistent_fan_out)
qed

lemma all_consistent_multiple:
  "all_consistent info \<Longrightarrow> all_consistent (process_multiple_court_slots g info)"
  unfolding process_multiple_court_slots_def
  by (auto intro: all_consistent_record_slot foldl_preserves [where P = all_consistent])

lemma all_consistent_group: "all_consistent info \<Longrightarrow> all_consistent (process_group g info)"
  by (auto simp: process_group_def all_consistent_single all_consistent_multiple split: list.splits)

lemma all_consistent_availability: "all_consistent (get_squash_court_availability slots_in)"
  unfolding get_squash_court_availability_def
proof (rule foldl_preserves [where P = all_consistent])
  show "all_consistent []" by (simp add: all_consistent_def)
next
  fix acc :: court_info and x :: "string \<times> slot_data list"
  assume "all_consistent acc"
  then show "all_consistent (case x of (start_time, slot_group) \<Rightarrow> process_group slot_group acc)"
    by (cases x) (simp add: all_consistent_group)
qed

lemma weight_update:
  "sum_list (map (\<lambda>(k, v). w v) (AList.update n v al))
     + (case map_of al n of None \<Rightarrow> 0 | Some v0 \<Rightarrow> w v0)
   = sum_list (map (\<lambda>(k, v). w v) al) + (w v :: nat)"
  by (induction al) (auto split: option.splits)

lemma size_add_to_group:
  "sum_list (map (\<lambda>(k, g). length g) (add_to_group sd ts))
   = Suc (sum_list (map (\<lambda>(k, g). length g) ts))"
proof -
  define k where "k = (case startDate sd of None \<Rightarrow> [] | Some s \<Rightarrow> s)"
  define g0 where "g0 = (case map_of ts k of None \<Rightarrow> [] | Some g \<Rightarrow> g)"
  have "(case map_of ts k of None \<Rightarrow> 0 | Some g \<Rightarrow> length g) = length g0"
    by (simp add: g0_def split: option.splits)
  with weight_update [of length k "g0 @ [sd]" ts]
  have "sum_list (map (\<lambda>(k, g). length g) (AList.update k (g0 @ [sd]) ts))
        = Suc (sum_list (map (\<lambda>(k, g). length g) ts))"
    by simp
  then show ?thesis
    by (simp add: add_to_group_def k_def g0_def Let_def)
qed

lemma size_group_by_start:
  "sum_list (map (\<lambda>(k, g). length g) (group_by_start slots_in ts))
   = sum_list (map (\<lambda>(k, g). length g) ts) + length (admitted_data slots_in)"
proof (induction slots_in arbitrary: ts)
  case Nil
  then show ?case by (simp add: admitted_data_def List.map_filter_simps)
next
  case (Cons it rest)
  show ?case
  proof (cases "item_data it")
    case None
    with Cons show ?thesis by (simp add: admitted_data_def List.map_filter_simps)
  next
    case (Some sd)
    with Cons show ?thesis
      by (simp add: admitted_data_def List.map_filter_simps size_add_to_group)
  qed
qed

lemma total_periods_availability:
  assumes "\<forall>sd\<in>set (lone_slots slots_in). \<not> reconstructs sd"
  shows "total_periods (get_squash_court_availability slots_in)
         = sum_list (map (\<lambda>(k, g). group_periods g) (group_by_start slots_in []))"
proof -
  have "total_periods (foldl (\<lambda>info (start_time, slot_group). process_group slot_group info) []
          (group_by_start slots_in []))
        = total_periods [] + sum_list (map (\<lambda>(k, g). group_periods g) (group_by_start slots_in []))"
  proof (rule foldl_total)
    fix acc :: court_info and x :: "string \<times> slot_data list"
    assume x: "x \<in> set (group_by_start slots_in [])"
    obtain k g where kg: "x = (k, g)" by (cases x)
    have "\<forall>sd. g = [sd] \<longrightarrow> \<not> reconstructs sd"
    proof (intro allI impI)
      fix sd assume "g = [sd]"
      with x kg have "sd \<in> set (lone_slots slots_in)"
        by (force simp: lone_slots_def)
      with assms show "\<not> reconstructs sd" by blast
    qed
    then show "total_periods (case x of (start_time, slot_group) \<Rightarrow> process_group slot_group acc)
        = total_periods acc + (case x of (k, g) \<Rightarrow> group_periods g)"
      by (simp add: kg total_periods_group)
  qed
  then show ?thesis
    by (simp add: get_squash_court_availability_def total_periods_def)
qed

lemma total_periods_one_each:
  assumes "\<forall>sd\<in>set (lone_slots slots_in). length (sportsActivityLocation sd) \<le> 1"
  shows "total_periods (get_squash_court_availability slots_in) = length (admitted_data slots_in)"
proof -
  have nr: "\<forall>sd\<in>set (lone_slots slots_in). \<not> reconstructs sd"
    using assms by (auto simp: reconstructs_def)
  have "group_periods g = length g" if "(k, g) \<in> set (group_by_start slots_in [])" for k g
  proof (cases "\<exists>sd. g = [sd]")
    case True
    then obtain sd where g: "g = [sd]" by blast
    with that have "sd \<in> set (lone_slots slots_in)" by (force simp: lone_slots_def)
    with assms g show ?thesis by (auto simp: group_periods_def)
  next
    case False
    then show ?thesis by (auto simp: group_periods_def split: list.splits)
  qed
  then have "map (\<lambda>(k, g). group_periods g) (group_by_start slots_in [])
      = map (\<lambda>(k, g). length g) (group_by_start slots_in [])"
    by auto
  then have "sum_list (map (\<lambda>(k, g). group_periods g) (group_by_start slots_in []))
      = sum_list (map (\<lambda>(k, g). length g) (group_by_start slots_in []))"
    by (rule arg_cong)
  then show ?thesis
    using total_periods_availability [OF nr] size_group_by_start [of slots_in "[]"] by simp
qed

lemma kept_refl: "kept c c"
  by (simp add: kept_def)

lemma kept_trans: "kept a b \<Longrightarrow> kept b c \<Longrightarrow> kept a c"
  by (auto simp: kept_def)

lemma kept_record_slot:
  assumes "\<exists>c'. map_of info k = Some c' \<and> kept c c'"
  shows "\<exists>c'. map_of (record_slot n cid sd info) k = Some c' \<and> kept c c'"
proof -
  from assms obtain c0 where c0: "map_of info k = Some c0" "kept c c0" by blast
  show ?thesis
  proof (cases "k = n")
    case True
    with c0 show ?thesis
      by (auto simp: map_of_record_slot kept_def)
  next
    case False
    with c0 show ?thesis by (simp add: map_of_record_slot)
  qed
qed

lemma kept_fan_out:
  assumes "map_of info k = Some c"
  shows "\<exists>c'. map_of (fan_out sd info) k = Some c' \<and> kept c c'"
proof -
  have start: "\<exists>c'. map_of info k = Some c' \<and> kept c c'"
    using assms kept_refl by blast
  show ?thesis
    unfolding fan_out_def
    by (auto intro!: kept_record_slot start
        foldl_preserves [where P = "\<lambda>ci. \<exists>c'. map_of ci k = Some c' \<and> kept c c'"])
qed

lemma is_partially_booked_alt:
  "is_partially_booked sd = (remainingUses sd = 0 \<and> first_price sd > 0)"
  by (simp add: is_partially_booked_def first_price_def split: list.splits)






lemma map_of_court_step:
  "map_of (court_step info sd) k =
     (if k = fst (resolve_court sd)
      then Some \<lparr>court_id = (case map_of info k of None \<Rightarrow> snd (resolve_court sd) | Some c \<Rightarrow> court_id c),
                 available = ((case map_of info k of None \<Rightarrow> False | Some c \<Rightarrow> available c) \<or> remainingUses sd > 0),
                 remaining_uses = max (case map_of info k of None \<Rightarrow> 0 | Some c \<Rightarrow> remaining_uses c) (remainingUses sd),
                 slots = (case map_of info k of None \<Rightarrow> [] | Some c \<Rightarrow> slots c) @ [period_of sd]\<rparr>
      else map_of info k)"
  by (simp add: court_step_def map_of_record_slot)



lemma keys_record_slot:
  "fst ` set (record_slot n cid sd info) = insert n (fst ` set info)"
  by (simp add: record_slot_alt dom_update)




text \<open>
  Claim C1 (amended). Within one resolved window every entry of the output map is
  consistent: its \<open>available\<close> flag is true if and only if one of the periods recorded in
  it has remaining uses. When no admitted item that is alone at its start time has more
  than one embedded location, the map holds exactly one period per admitted item. In
  general, each item of a group of several items adds one period to exactly one entry
  (the entry of its inferred court; no other entry changes); an item alone in its group
  adds one period per embedded location (one when it has none); and when the
  partially-booked pattern is met, the map is replaced by one entry with one period.
\<close>

theorem aggregation_contributions:
  "all_consistent (get_squash_court_availability slots_in)
   \<and> ((\<forall>sd\<in>set (lone_slots slots_in). length (sportsActivityLocation sd) \<le> 1) \<longrightarrow>
        total_periods (get_squash_court_availability slots_in) = length (admitted_data slots_in))
   \<and> total_periods (court_step info sd) = Suc (total_periods info)
   \<and> (\<forall>k. k \<noteq> fst (resolve_court sd) \<longrightarrow> map_of (court_step info sd) k = map_of info k)
   \<and> total_periods (process_multiple_court_slots g info) = total_periods info + length g
   \<and> (\<not> reconstructs sd \<longrightarrow>
        total_periods (process_group [sd] info)
        = total_periods info + max 1 (length (sportsActivityLocation sd)))
   \<and> (reconstructs sd \<longrightarrow> total_periods (process_group [sd] info) = 1)"
proof (intro conjI impI allI)
  show "all_consistent (get_squash_court_availability slots_in)"
    by (rule all_consistent_availability)
next
  assume "\<forall>sd\<in>set (lone_slots slots_in). length (sportsActivityLocation sd) \<le> 1"
  then show "total_periods (get_squash_court_availability slots_in) = length (admitted_data slots_in)"
    by (rule total_periods_one_each)
next
  show "total_periods (court_step info sd) = Suc (total_periods info)"
    by (simp add: court_step_def total_periods_record_slot)
next
  fix k assume "k \<noteq> fst (resolve_court sd)"
  then show "map_of (court_step info sd) k = map_of info k"
    by (simp add: map_of_court_step)
next
  show "total_periods (process_multiple_court_slots g info) = total_periods info + length g"
    by (rule total_periods_multiple)
next
  assume "\<not> reconstructs sd"
  then show "total_periods (process_group [sd] info)
      = total_periods info + max 1 (length (sportsActivityLocation sd))"
    by (simp add: process_group_def process_single_slot_plain total_periods_fan_out)
next
  assume "reconstructs sd"
  then show "total_periods (process_group [sd] info) = 1"
    by (simp add: process_group_def process_single_slot_reconstructs total_periods_def
        synthetic_entry_def)
qed

theorem aggregation_contributions_witness:
  "total_periods (get_squash_court_availability
       [\<lparr>item_data = Some free_slot\<rparr>, \<lparr>item_data = Some booked_slot\<rparr>]) = 2
   \<and> total_periods (process_group [early_slot] []) = 1
   \<and> total_periods (process_group [booked_half] (process_group [early_slot] [])) = 1
   \<and> all_consistent (get_squash_court_availability
       [\<lparr>item_data = Some free_slot\<rparr>, \<lparr>item_data = Some booked_slot\<rparr>])"
proof -
  have l: "lone_slots [\<lparr>item_data = Some free_slot\<rparr>, \<lparr>item_data = Some booked_slot\<rparr>] = []"
    by code_simp
  have a: "length (admitted_data [\<lparr>item_data = Some free_slot\<rparr>, \<lparr>item_data = Some booked_slot\<rparr>]) = 2"
    by code_simp
  have e: "\<not> reconstructs early_slot" "length (sportsActivityLocation early_slot) = 1"
    by (simp_all add: reconstructs_def early_slot_def)
  have b: "reconstructs booked_half"
    by (simp add: reconstructs_def is_partially_booked_def booked_half_def free_slot_def
        two_courts_def price_of_def)
  show ?thesis
    using aggregation_contributions [of "[\<lparr>item_data = Some free_slot\<rparr>, \<lparr>item_data = Some booked_slot\<rparr>]"
        "[]" early_slot "[]"]
      aggregation_contributions [of "[]" "process_group [early_slot] []" booked_half "[]"]
      l a e b
    by (simp add: total_periods_def)
qed

text \<open>
  The claim as stated fails in two ways. A free slot alone at its start time with two
  locations puts its period into two entries. A slot with no remaining uses that shows the
  partially-booked pattern ends in no entry at all, and the only entry of the map is
  flagged available although the only feed item has no remaining uses.
\<close>

theorem aggregation_contributions_counterexample:
  "admitted_data [\<lparr>item_data = Some free_slot\<rparr>] = [free_slot]
   \<and> holders (period_of free_slot) (get_squash_court_availability [\<lparr>item_data = Some free_slot\<rparr>])
       = [''Squash Court 1'', ''Squash Court 2'']
   \<and> admitted_data [\<lparr>item_data = Some booked_half\<rparr>] = [booked_half]
   \<and> remainingUses booked_half = 0
   \<and> get_squash_court_availability [\<lparr>item_data = Some booked_half\<rparr>]
       = [(''Available Courts'',
           \<lparr>court_id = ''partial_booking'', available = True, remaining_uses = 1,
            slots = [\<lparr>p_start = Some ''2026-02-03T09:20:00Z'',
                      p_end = Some ''2026-02-03T10:00:00Z'', p_remaining = 1\<rparr>]\<rparr>)]
   \<and> holders (period_of booked_half) (get_squash_court_availability [\<lparr>item_data = Some booked_half\<rparr>])
       = []"
  by code_simp

text \<open>
  Claim C2. The reconstruction happens exactly when the item of a single-item group has
  \<open>remainingUses = 0\<close>, a first offer with a price above 0, and exactly two embedded
  locations. Then, whatever the map built so far holds, the group leaves exactly one entry,
  \<open>Available Courts\<close> with id \<open>partial_booking\<close>, available, \<open>remaining_uses = 1\<close> and one
  period with the item's start and end; if the group is the last one of the window, this
  is the window's result. When the three conditions do not all hold, the group is only
  recorded (per location, or under its identifier), and every entry built so far is kept
  with its id and its periods.
\<close>

theorem partial_booking_reconstruction:
  "reconstructs sd
     = (remainingUses sd = 0 \<and> (\<exists>off rest. offers sd = off # rest \<and> price_of off > 0)
        \<and> length (sportsActivityLocation sd) = 2)
   \<and> (reconstructs sd \<longrightarrow> process_group [sd] info = [synthetic_entry sd])
   \<and> (reconstructs sd \<longrightarrow> group_by_start slots_in [] = earlier @ [(start_time, [sd])] \<longrightarrow>
        get_squash_court_availability slots_in = [synthetic_entry sd])
   \<and> (\<not> reconstructs sd \<longrightarrow>
        process_group [sd] info = fan_out sd info
        \<and> (\<forall>k c. map_of info k = Some c \<longrightarrow>
              (\<exists>c'. map_of (process_group [sd] info) k = Some c' \<and> kept c c')))"
proof (intro conjI impI allI)
  show "reconstructs sd
     = (remainingUses sd = 0 \<and> (\<exists>off rest. offers sd = off # rest \<and> price_of off > 0)
        \<and> length (sportsActivityLocation sd) = 2)"
    by (cases "offers sd") (simp_all add: reconstructs_def is_partially_booked_def)
next
  assume "reconstructs sd"
  then show "process_group [sd] info = [synthetic_entry sd]"
    by (simp add: process_group_def process_single_slot_reconstructs)
next
  assume "reconstructs sd" and "group_by_start slots_in [] = earlier @ [(start_time, [sd])]"
  then show "get_squash_court_availability slots_in = [synthetic_entry sd]"
    by (simp add: get_squash_court_availability_def process_group_def
        process_single_slot_reconstructs)
next
  assume "\<not> reconstructs sd"
  then show "process_group [sd] info = fan_out sd info"
    by (simp add: process_group_def process_single_slot_plain)
next
  fix k c
  assume "\<not> reconstructs sd" and "map_of info k = Some c"
  then show "\<exists>c'. map_of (process_group [sd] info) k = Some c' \<and> kept c c'"
    by (simp add: process_group_def process_single_slot_plain kept_fan_out)
qed

theorem partial_booking_reconstruction_witness:
  "reconstructs booked_half
   \<and> process_group [booked_half] (process_group [early_slot] []) = [synthetic_entry booked_half]
   \<and> get_squash_court_availability [\<lparr>item_data = Some early_slot\<rparr>, \<lparr>item_data = Some booked_half\<rparr>]
       = [(''Available Courts'',
           \<lparr>court_id = ''partial_booking'', available = True, remaining_uses = 1,
            slots = [\<lparr>p_start = Some ''2026-02-03T09:20:00Z'',
                      p_end = Some ''2026-02-03T10:00:00Z'', p_remaining = 1\<rparr>]\<rparr>)]
   \<and> \<not> reconstructs no_location_slot
   \<and> process_group [no_location_slot] (process_group [early_slot] [])
       = fan_out no_location_slot (process_group [early_slot] [])
   \<and> (\<exists>c'. map_of (process_group [no_location_slot] (process_group [early_slot] [])) ''Squash Court 1''
              = Some c'
            \<and> kept \<lparr>court_id = ''041ZSQU001'', available = True, remaining_uses = 1,
                     slots = [period_of early_slot]\<rparr> c')"
proof -
  have b: "reconstructs booked_half"
    by (simp add: reconstructs_def is_partially_booked_def booked_half_def free_slot_def
        two_courts_def price_of_def)
  have n: "\<not> reconstructs no_location_slot"
    by (simp add: reconstructs_def no_location_slot_def)
  have g: "group_by_start [\<lparr>item_data = Some early_slot\<rparr>, \<lparr>item_data = Some booked_half\<rparr>] []
      = [(''2026-02-03T08:40:00Z'', [early_slot])] @ [(''2026-02-03T09:20:00Z'', [booked_half])]"
    by code_simp
  have s: "synthetic_entry booked_half
      = (''Available Courts'',
           \<lparr>court_id = ''partial_booking'', available = True, remaining_uses = 1,
            slots = [\<lparr>p_start = Some ''2026-02-03T09:20:00Z'',
                      p_end = Some ''2026-02-03T10:00:00Z'', p_remaining = 1\<rparr>]\<rparr>)"
    by (simp add: synthetic_entry_def booked_half_def free_slot_def)
  have m: "map_of (process_group [early_slot] []) ''Squash Court 1''
      = Some \<lparr>court_id = ''041ZSQU001'', available = True, remaining_uses = 1,
          slots = [period_of early_slot]\<rparr>"
    by code_simp
  note t1 = partial_booking_reconstruction [of booked_half "process_group [early_slot] []"
        "[\<lparr>item_data = Some early_slot\<rparr>, \<lparr>item_data = Some booked_half\<rparr>]"
        "[(''2026-02-03T08:40:00Z'', [early_slot])]" "''2026-02-03T09:20:00Z''"]
  note t2 = partial_booking_reconstruction [of no_location_slot "process_group [early_slot] []"]
  have c1: "process_group [booked_half] (process_group [early_slot] []) = [synthetic_entry booked_half]"
    using t1 b by blast
  have c2: "get_squash_court_availability [\<lparr>item_data = Some early_slot\<rparr>, \<lparr>item_data = Some booked_half\<rparr>]
      = [synthetic_entry booked_half]"
    using t1 b g by blast
  have c3: "process_group [no_location_slot] (process_group [early_slot] [])
       = fan_out no_location_slot (process_group [early_slot] [])"
    using t2 n by blast
  have c4: "\<exists>c'. map_of (process_group [no_location_slot] (process_group [early_slot] [])) ''Squash Court 1''
              = Some c'
            \<and> kept \<lparr>court_id = ''041ZSQU001'', available = True, remaining_uses = 1,
                     slots = [period_of early_slot]\<rparr> c'"
    using t2 n m by blast
  show ?thesis
    using b n c1 c2 c3 c4 by (simp add: s)
qed



subsection \<open>Time strings and the filter loop\<close>

lemma below_ten_cases:
  assumes "k < (10::nat)"
  shows "k = 0 \<or> k = 1 \<or> k = 2 \<or> k = 3 \<or> k = 4 \<or> k = 5 \<or> k = 6 \<or> k = 7 \<or> k = 8 \<or> k = 9"
  using assms by arith

lemma digit_of_digit_char: "digit_of (digit_char n) = Some (n mod 10)"
proof -
  have "n mod 10 < 10" by simp
  from below_ten_cases [OF this] show ?thesis
    by (elim disjE) (simp_all add: digit_of_def digit_char_def)
qed

lemma digit_char_not_colon: "digit_char n \<noteq> CHR '':''"
proof -
  have "n mod 10 < 10" by simp
  from below_ten_cases [OF this] show ?thesis
    by (elim disjE) (simp_all add: digit_char_def)
qed

lemma two_digits_roundtrip:
  assumes "x < bound" and "bound \<le> 100"
  shows "two_digits bound [digit_char (x div 10), digit_char x] = Some x"
proof -
  from assms have "x div 10 < 10" by simp
  then have "(x div 10) mod 10 = x div 10" by simp
  with assms show ?thesis
    by (simp add: two_digits_def digit_of_digit_char)
qed

lemma strptime_strftime:
  assumes "m < 1440"
  shows "strptime_HM (strftime_HM m) = Some m"
proof -
  have h: "m div 60 < 24" using assms by simp
  have d: "m div 600 = m div 60 div 10" by (simp add: div_mult2_eq)
  have "two_digits 24 [digit_char (m div 60 div 10), digit_char (m div 60)] = Some (m div 60)"
    by (rule two_digits_roundtrip [OF h]) simp
  moreover have "two_digits 60 [digit_char (m mod 60 div 10), digit_char (m mod 60)] = Some (m mod 60)"
    by (rule two_digits_roundtrip) simp_all
  ultimately show ?thesis
    by (simp add: strptime_HM_def strftime_HM_def d digit_char_not_colon)
qed

lemma filter_loop_times:
  "filter_loop lib (it # rest) ts te acc =
     (case slot_times lib it of
        None \<Rightarrow> filter_loop lib rest ts te acc
      | Some (a, b) \<Rightarrow>
          if date_of a = date_of (adopt_tz ts a)
          then (case time_overlaps a b (adopt_tz ts a) (adopt_tz te b) of
                  Inl e \<Rightarrow> Inl e
                | Inr overlap \<Rightarrow>
                    filter_loop lib rest (adopt_tz ts a) (adopt_tz te b)
                      (if overlap then acc @ [it] else acc))
          else filter_loop lib rest (adopt_tz ts a) (adopt_tz te b) acc)"
proof (cases "item_data it")
  case None
  then show ?thesis by (simp add: slot_times_def)
next
  case (Some sd)
  show ?thesis
  proof (cases "is_squash (facilityUse sd)")
    case False
    with Some show ?thesis by (simp add: slot_times_def)
  next
    case True
    show ?thesis
    proof (cases "case startDate sd of None \<Rightarrow> None | Some s \<Rightarrow> fromisoformat lib s")
      case None
      with Some True show ?thesis by (simp add: slot_times_def)
    next
      case a: (Some a)
      show ?thesis
      proof (cases "case endDate sd of None \<Rightarrow> None | Some s \<Rightarrow> fromisoformat lib s")
        case None
        with Some True a show ?thesis by (simp add: slot_times_def)
      next
        case b: (Some b)
        with Some True a show ?thesis by (simp add: slot_times_def Let_def)
      qed
    qed
  qed
qed

declare filter_loop.simps(2) [simp del]

lemma filter_loop_skip:
  "slot_times lib it = None \<Longrightarrow>
   filter_loop lib (it # rest) ts te acc = filter_loop lib rest ts te acc"
  by (simp add: filter_loop_times)

lemma filter_loop_compare:
  "slot_times lib it = Some (a, b) \<Longrightarrow>
   filter_loop lib (it # rest) ts te acc =
     (if date_of a = date_of (adopt_tz ts a)
      then (case time_overlaps a b (adopt_tz ts a) (adopt_tz te b) of
              Inl e \<Rightarrow> Inl e
            | Inr overlap \<Rightarrow>
                filter_loop lib rest (adopt_tz ts a) (adopt_tz te b)
                  (if overlap then acc @ [it] else acc))
      else filter_loop lib rest (adopt_tz ts a) (adopt_tz te b) acc)"
  by (simp add: filter_loop_times)

lemma adopt_tz_offset:
  "tz_ok tz target \<Longrightarrow> utcoffset slot = tz \<Longrightarrow> utcoffset (adopt_tz target slot) = tz"
  by (auto simp: tz_ok_def adopt_tz_def)

lemma adopt_tz_local: "local_us (adopt_tz target slot) = local_us target"
  by (simp add: adopt_tz_def)

lemma instant_diff:
  "utcoffset x = tz \<Longrightarrow> utcoffset y = tz \<Longrightarrow> instant x - instant y = local_us x - local_us y"
  by (auto simp: instant_def split: option.splits)

lemma time_overlaps_one_offset:
  assumes "utcoffset a = tz" "utcoffset b = tz" "utcoffset c = tz" "utcoffset d = tz"
  shows "time_overlaps a b c d = Inr (instant a < instant d \<and> instant c < instant b)"
proof -
  have "comparable a d" "comparable c b"
    using assms by (simp_all add: comparable_def)
  then show ?thesis
    by (simp add: time_overlaps_def dt_less_comparable)
qed

lemma filter_loop_inverted:
  assumes "one_offset lib tz its" and "lasting_at_most lib limit its"
    and "tz_ok tz ts" and "tz_ok tz te" and "limit \<le> local_us ts - local_us te"
  shows "filter_loop lib its ts te acc = Inr acc"
  using assms
proof (induction its arbitrary: ts te)
  case Nil
  then show ?case by simp
next
  case (Cons it rest)
  from Cons.prems have rest: "one_offset lib tz rest" "lasting_at_most lib limit rest"
    by (simp_all add: one_offset_def lasting_at_most_def)
  show ?case
  proof (cases "slot_times lib it")
    case None
    then show ?thesis
      using Cons.IH [OF rest Cons.prems(3,4,5)] by (simp add: filter_loop_skip)
  next
    case (Some ab)
    obtain a b where ab: "ab = (a, b)" by (cases ab)
    with Some have st: "slot_times lib it = Some (a, b)" by simp
    with Cons.prems have off: "utcoffset a = tz" "utcoffset b = tz"
      and dur: "instant b - instant a \<le> limit"
      by (simp_all add: one_offset_def lasting_at_most_def)
    let ?ts = "adopt_tz ts a" and ?te = "adopt_tz te b"
    have o: "utcoffset ?ts = tz" "utcoffset ?te = tz"
      using Cons.prems off by (simp_all add: adopt_tz_offset)
    then have ok: "tz_ok tz ?ts" "tz_ok tz ?te"
      by (simp_all add: tz_ok_def)
    have gap: "limit \<le> local_us ?ts - local_us ?te"
      using Cons.prems(5) by (simp add: adopt_tz_local)
    have "instant ?ts - instant ?te = local_us ?ts - local_us ?te"
      using o by (rule instant_diff)
    with gap dur have "\<not> (instant a < instant ?te \<and> instant ?ts < instant b)"
      by linarith
    then have "time_overlaps a b ?ts ?te = Inr False"
      using time_overlaps_one_offset [OF off(1) off(2) o(1) o(2)] by simp
    then show ?thesis
      using Cons.IH [OF rest ok gap] by (simp add: filter_loop_compare [OF st])
  qed
qed

lemma filter_loop_returns:
  assumes "one_offset lib tz its" and "tz_ok tz ts" and "tz_ok tz te"
  shows "\<exists>r. filter_loop lib its ts te acc = Inr r"
  using assms
proof (induction its arbitrary: ts te acc)
  case Nil
  then show ?case by simp
next
  case (Cons it rest)
  from Cons.prems have rest: "one_offset lib tz rest"
    by (simp add: one_offset_def)
  show ?case
  proof (cases "slot_times lib it")
    case None
    then show ?thesis
      using Cons.IH [OF rest Cons.prems(2,3)] by (simp add: filter_loop_skip)
  next
    case (Some ab)
    obtain a b where ab: "ab = (a, b)" by (cases ab)
    with Some have st: "slot_times lib it = Some (a, b)" by simp
    with Cons.prems have off: "utcoffset a = tz" "utcoffset b = tz"
      by (simp_all add: one_offset_def)
    let ?ts = "adopt_tz ts a" and ?te = "adopt_tz te b"
    have o: "utcoffset ?ts = tz" "utcoffset ?te = tz"
      using Cons.prems off by (simp_all add: adopt_tz_offset)
    then have ok: "tz_ok tz ?ts" "tz_ok tz ?te"
      by (simp_all add: tz_ok_def)
    show ?thesis
      using Cons.IH [OF rest ok]
      by (simp add: filter_loop_compare [OF st] time_overlaps_one_offset [OF off(1) off(2) o(1) o(2)])
  qed
qed

lemma parse_datetime_strftime:
  assumes "strptime_ymd lib target_date = Some day" and "m < 1440"
  shows "parse_datetime lib target_date (strftime_HM m)
         = Inr \<lparr>local_us = day * us_per_day + int m * us_per_minute, utcoffset = None\<rparr>"
  using assms by (simp add: parse_datetime_def strptime_strftime)

lemma parse_datetime_ok:
  assumes "strptime_ymd lib target_date = Some day" and "strptime_HM s = Some m"
  shows "parse_datetime lib target_date s
         = Inr \<lparr>local_us = day * us_per_day + int m * us_per_minute, utcoffset = None\<rparr>"
  using assms by (simp add: parse_datetime_def)

lemma digit_of_bound: "digit_of c = Some x \<Longrightarrow> x < 10"
  by (auto simp: digit_of_def split: if_splits)

lemma two_digits_bound:
  assumes "two_digits bound s = Some x" and "10 \<le> bound"
  shows "x < bound"
  using assms digit_of_bound
  by (fastforce simp: two_digits_def split: list.splits option.splits if_splits)

lemma strptime_HM_bound:
  assumes "strptime_HM s = Some m"
  shows "m < 1440"
proof -
  from assms obtain h mm rest where
    h: "two_digits 24 (takeWhile (\<lambda>c. c \<noteq> CHR '':'') s) = Some h"
    and mm: "two_digits 60 rest = Some mm" and m: "m = 60 * h + mm"
    by (auto simp: strptime_HM_def split: list.splits option.splits)
  have "h < 24" using two_digits_bound [OF h] by simp
  moreover have "mm < 60" using two_digits_bound [OF mm] by simp
  ultimately show ?thesis using m by simp
qed

lemma filter_naive_returns:
  assumes "strptime_ymd lib target_date = Some day" and "strptime_HM s1 = Some m1"
    and "strptime_HM s2 = Some m2" and "one_offset lib tz its"
  shows "\<exists>r. filter_squash_slots_by_time lib its target_date s1 s2 = Inr r"
proof -
  let ?ts = "\<lparr>local_us = day * us_per_day + int m1 * us_per_minute, utcoffset = None\<rparr>"
  let ?te = "\<lparr>local_us = day * us_per_day + int m2 * us_per_minute, utcoffset = None\<rparr>"
  have "\<exists>r. filter_loop lib its ?ts ?te [] = Inr r"
    by (rule filter_loop_returns [OF assms(4)]) (simp_all add: tz_ok_def)
  then show ?thesis
    using assms(1-3) by (simp add: filter_squash_slots_by_time_def parse_datetime_ok)
qed

lemma filter_inverted_empty:
  assumes "strptime_ymd lib target_date = Some day" and "strptime_HM s1 = Some m1"
    and "strptime_HM s2 = Some m2" and "one_offset lib tz its"
    and "lasting_at_most lib limit its" and "limit \<le> (int m1 - int m2) * us_per_minute"
  shows "filter_squash_slots_by_time lib its target_date s1 s2 = Inr []"
proof -
  let ?ts = "\<lparr>local_us = day * us_per_day + int m1 * us_per_minute, utcoffset = None\<rparr>"
  let ?te = "\<lparr>local_us = day * us_per_day + int m2 * us_per_minute, utcoffset = None\<rparr>"
  have "limit \<le> local_us ?ts - local_us ?te"
    using assms(6) by (simp add: algebra_simps)
  then have "filter_loop lib its ?ts ?te [] = Inr []"
    by (intro filter_loop_inverted [OF assms(4,5)]) (simp_all add: tz_ok_def)
  then show ?thesis
    using assms(1-3) by (simp add: filter_squash_slots_by_time_def parse_datetime_ok)
qed

lemma early_before_start:
  assumes "t < 40"
  shows "nat ((int t - 40) mod 1440) = t + 1400"
proof -
  have e: "int t - 40 + 1440 = int t + 1400" by simp
  have "(int t - 40) mod 1440 = (int t - 40 + 1440) mod 1440"
    by (rule mod_add_self2 [symmetric])
  also have "\<dots> = (int t + 1400) mod 1440" by (simp only: e)
  also have "\<dots> = int t + 1400" using assms by (intro mod_pos_pos_trivial) simp_all
  finally show ?thesis by simp
qed

lemma check_squash_availability_early:
  assumes st: "strptime_HM start_time = Some t" and early: "t < 40"
    and ymd: "strptime_ymd lib target_date = Some day"
    and fetch: "fetch_all_slots fd = Inr all"
    and off: "one_offset lib tz all"
    and dur: "lasting_at_most lib (1400 * us_per_minute) all"
  shows "\<exists>main_slots. check_squash_availability lib fd target_date start_time
           = Inr \<lparr>main_court_info = get_squash_court_availability main_slots,
                  before_court_info = [],
                  main_start = start_time, main_end = strftime_HM (t + 40),
                  before_start = strftime_HM (t + 1400), before_end = start_time\<rparr>"
proof -
  have me: "(t + 40) mod 1440 = t + 40" using early by simp
  have p1: "strptime_HM (strftime_HM (t + 40)) = Some (t + 40)"
    using early by (intro strptime_strftime) simp
  have p2: "strptime_HM (strftime_HM (t + 1400)) = Some (t + 1400)"
    using early by (intro strptime_strftime) simp
  obtain main_slots where
    m: "filter_squash_slots_by_time lib all target_date start_time (strftime_HM (t + 40)) = Inr main_slots"
    using filter_naive_returns [OF ymd st p1 off] by blast
  have b: "filter_squash_slots_by_time lib all target_date (strftime_HM (t + 1400)) start_time = Inr []"
    by (rule filter_inverted_empty [OF ymd p2 st off dur]) simp
  have "get_squash_court_availability [] = []"
    by (simp add: get_squash_court_availability_def)
  then have "check_squash_availability lib fd target_date start_time
           = Inr \<lparr>main_court_info = get_squash_court_availability main_slots,
                  before_court_info = [],
                  main_start = start_time, main_end = strftime_HM (t + 40),
                  before_start = strftime_HM (t + 1400), before_end = start_time\<rparr>"
    using st fetch m b
    by (simp add: check_squash_availability_def early_before_start [OF early] me)
  then show ?thesis by blast
qed

lemma check_windows:
  assumes st: "strptime_HM start_time = Some t"
    and ok: "check_squash_availability lib fd target_date start_time = Inr av"
  shows "main_start av = start_time \<and> main_end av = strftime_HM ((t + 40) mod 1440)
       \<and> before_start av = strftime_HM (nat ((int t - 40) mod 1440)) \<and> before_end av = start_time"
proof (cases "fetch_all_slots fd")
  case (Inl e)
  with st ok show ?thesis by (simp add: check_squash_availability_def)
next
  case all: (Inr all)
  show ?thesis
  proof (cases "filter_squash_slots_by_time lib all target_date start_time
      (strftime_HM ((t + 40) mod 1440))")
    case (Inl e)
    with st ok all show ?thesis by (simp add: check_squash_availability_def)
  next
    case m: (Inr main_slots)
    show ?thesis
    proof (cases "filter_squash_slots_by_time lib all target_date
        (strftime_HM (nat ((int t - 40) mod 1440))) start_time")
      case (Inl e)
      with st ok all m show ?thesis by (simp add: check_squash_availability_def)
    next
      case (Inr before_slots)
      with st ok all m show ?thesis
        by (auto simp add: check_squash_availability_def)
    qed
  qed
qed

lemma returned_report:
  assumes ret: "check_availability_programmatic lib fd target_date start_time = Returns r"
    and det: "details r = Some av"
  shows "check_squash_availability lib fd target_date start_time = Inr av
       \<and> message r = before_message (count_available (before_court_info av))
       \<and> success r = (count_available (before_court_info av) > 0)
       \<and> before_slot_available r = Some (count_available (before_court_info av))
       \<and> main_slot_available r = Some (count_available (main_court_info av))"
proof (cases "check_squash_availability lib fd target_date start_time")
  case (Inl e)
  with ret det show ?thesis
    by (cases e) (auto simp: check_availability_programmatic_def error_result_def)
next
  case c: (Inr av')
  show ?thesis
  proof (cases "build_booking_url lib target_date (before_start av')")
    case (Inl e)
    with ret det c show ?thesis
      by (cases e) (auto simp: check_availability_programmatic_def error_result_def)
  next
    case (Inr url)
    with ret det c show ?thesis
      by (auto simp: check_availability_programmatic_def Let_def)
  qed
qed





subsection \<open>The two membership tests\<close>

lemma is_substring_iff: "is_substring p s = (\<exists>a b. s = a @ p @ b)"
proof (induction s)
  case Nil
  then show ?case by auto
next
  case (Cons c cs)
  have pre: "(take (length p) (c # cs) = p) = (\<exists>b. c # cs = p @ b)"
  proof
    assume "take (length p) (c # cs) = p"
    then have "c # cs = p @ drop (length p) (c # cs)"
      using append_take_drop_id [of "length p" "c # cs"] by simp
    then show "\<exists>b. c # cs = p @ b" ..
  next
    assume "\<exists>b. c # cs = p @ b"
    then obtain b where "c # cs = p @ b" ..
    then show "take (length p) (c # cs) = p" by simp
  qed
  show ?case
  proof
    assume "is_substring p (c # cs)"
    then consider "take (length p) (c # cs) = p" | "is_substring p cs" by auto
    then show "\<exists>a b. c # cs = a @ p @ b"
    proof cases
      case 1
      with pre obtain b where "c # cs = p @ b" by blast
      then have "c # cs = [] @ p @ b" by simp
      then show ?thesis by blast
    next
      case 2
      with Cons.IH obtain a b where "cs = a @ p @ b" by blast
      then have "c # cs = (c # a) @ p @ b" by simp
      then show ?thesis by blast
    qed
  next
    assume "\<exists>a b. c # cs = a @ p @ b"
    then obtain a b where ab: "c # cs = a @ p @ b" by blast
    show "is_substring p (c # cs)"
    proof (cases a)
      case Nil
      with ab have "\<exists>b. c # cs = p @ b" by auto
      with pre have "take (length p) (c # cs) = p" by blast
      then show ?thesis by simp
    next
      case (Cons x a')
      with ab have "cs = a' @ p @ b" by simp
      with Cons.IH show ?thesis by auto
    qed
  qed
qed

lemma split_on_nonempty: "split_on c s \<noteq> []"
  by (induction s) (auto split: list.splits)

lemma split_on_no_sep: "c \<notin> set s \<Longrightarrow> split_on c s = [s]"
  by (induction s) auto

lemma split_on_append: "split_on c (a @ c # b) = split_on c a @ split_on c b"
proof (induction a)
  case Nil
  then show ?case by simp
next
  case (Cons x a)
  then show ?case
    using split_on_nonempty [of c a] by (cases "split_on c a") auto
qed

lemma facility_id_of_last_segment:
  "CHR ''/'' \<notin> set seg \<Longrightarrow> facility_id_of (pre @ CHR ''/'' # seg) = seg"
  by (simp add: facility_id_of_def split_on_append split_on_no_sep)

lemma facility_id_of_whole: "CHR ''/'' \<notin> set s \<Longrightarrow> facility_id_of s = s"
  by (simp add: facility_id_of_def)

lemma group_by_start_append:
  "group_by_start (a @ b) ts = group_by_start b (group_by_start a ts)"
  by (induction a arbitrary: ts) (auto split: option.splits)

lemma availability_skips:
  assumes "\<not> admitted sd"
  shows "get_squash_court_availability (a @ \<lparr>item_data = Some sd\<rparr> # b)
         = get_squash_court_availability (a @ b)"
  using assms by (simp add: get_squash_court_availability_def group_by_start_append)

text \<open>
  Claim C9. The two stages test membership differently. \<open>filter_squash_slots_by_time\<close>
  admits a slot when \<open>041A000005\<close> occurs anywhere in its \<open>facilityUse\<close> string;
  \<open>get_squash_court_availability\<close> admits it only when \<open>041A000005\<close> is the part after the
  last \<open>/\<close> (or the whole string when there is no \<open>/\<close>), and passes over every other
  slot without a trace in its result. So a slot whose \<open>facilityUse\<close> holds the id in a
  segment that is not the last one passes the filter and ends in no entry.
\<close>

theorem membership_tests_differ:
  "is_squash fu = (\<exists>a b. fu = a @ ''041A000005'' @ b)
   \<and> (CHR ''/'' \<notin> set seg \<longrightarrow>
        admitted (sd\<lparr>facilityUse := pre @ CHR ''/'' # seg\<rparr>) = (seg = ''041A000005''))
   \<and> (CHR ''/'' \<notin> set (facilityUse sd) \<longrightarrow> admitted sd = (facilityUse sd = ''041A000005''))
   \<and> (\<not> admitted sd \<longrightarrow>
        get_squash_court_availability (before @ \<lparr>item_data = Some sd\<rparr> # after)
        = get_squash_court_availability (before @ after))
   \<and> is_squash (facilityUse nested_use_slot) \<and> \<not> admitted nested_use_slot
   \<and> filter_squash_slots_by_time example_lib [\<lparr>item_data = Some nested_use_slot\<rparr>]
         ''2026-02-03'' ''09:20'' ''10:00''
       = Inr [\<lparr>item_data = Some nested_use_slot\<rparr>]
   \<and> get_squash_court_availability [\<lparr>item_data = Some nested_use_slot\<rparr>] = []"
proof (intro conjI impI)
  show "is_squash fu = (\<exists>a b. fu = a @ ''041A000005'' @ b)"
    by (simp add: is_squash_def squash_facility_ids_def is_substring_iff)
next
  assume "CHR ''/'' \<notin> set seg"
  then show "admitted (sd\<lparr>facilityUse := pre @ CHR ''/'' # seg\<rparr>) = (seg = ''041A000005'')"
    by (simp add: admitted_def squash_facility_ids_def facility_id_of_last_segment)
next
  assume "CHR ''/'' \<notin> set (facilityUse sd)"
  then show "admitted sd = (facilityUse sd = ''041A000005'')"
    by (simp add: admitted_def squash_facility_ids_def facility_id_of_whole)
next
  assume "\<not> admitted sd"
  then show "get_squash_court_availability (before @ \<lparr>item_data = Some sd\<rparr> # after)
        = get_squash_court_availability (before @ after)"
    by (rule availability_skips)
next
  show "is_squash (facilityUse nested_use_slot)" by code_simp
next
  show "\<not> admitted nested_use_slot" by code_simp
next
  show "filter_squash_slots_by_time example_lib [\<lparr>item_data = Some nested_use_slot\<rparr>]
         ''2026-02-03'' ''09:20'' ''10:00''
       = Inr [\<lparr>item_data = Some nested_use_slot\<rparr>]"
    by code_simp
next
  show "get_squash_court_availability [\<lparr>item_data = Some nested_use_slot\<rparr>] = []"
    by code_simp
qed

theorem membership_tests_differ_witness:
  "admitted (free_slot\<lparr>facilityUse := ''https://opendata.leisurecloud.live/api/facility-uses'' @ CHR ''/'' # ''041A000005''\<rparr>)
   \<and> \<not> admitted (free_slot\<lparr>facilityUse := ''https://opendata.leisurecloud.live/api/facility-uses/041A000005'' @ CHR ''/'' # ''slots''\<rparr>)
   \<and> get_squash_court_availability
        ([\<lparr>item_data = Some early_slot\<rparr>] @ \<lparr>item_data = Some nested_use_slot\<rparr> # [])
       = get_squash_court_availability ([\<lparr>item_data = Some early_slot\<rparr>] @ [])"
proof -
  have n: "\<not> admitted nested_use_slot" by code_simp
  have s1: "CHR ''/'' \<notin> set ''041A000005''" and s2: "CHR ''/'' \<notin> set ''slots''" by simp_all
  note t1 = membership_tests_differ [where seg = "''041A000005''" and sd = free_slot
      and pre = "''https://opendata.leisurecloud.live/api/facility-uses''"]
  note t2 = membership_tests_differ [where seg = "''slots''" and sd = free_slot
      and pre = "''https://opendata.leisurecloud.live/api/facility-uses/041A000005''"]
  note t3 = membership_tests_differ [where sd = nested_use_slot
      and before = "[\<lparr>item_data = Some early_slot\<rparr>]" and after = "[]"]
  have a: "admitted (free_slot\<lparr>facilityUse := ''https://opendata.leisurecloud.live/api/facility-uses'' @ CHR ''/'' # ''041A000005''\<rparr>)"
    using t1 s1 by blast
  have b: "\<not> admitted (free_slot\<lparr>facilityUse := ''https://opendata.leisurecloud.live/api/facility-uses/041A000005'' @ CHR ''/'' # ''slots''\<rparr>)"
    using t2 s2 by auto
  have c: "get_squash_court_availability
        ([\<lparr>item_data = Some early_slot\<rparr>] @ \<lparr>item_data = Some nested_use_slot\<rparr> # [])
       = get_squash_court_availability ([\<lparr>item_data = Some early_slot\<rparr>] @ [])"
    using t3 n by blast
  from a b c show ?thesis by blast
qed

subsection \<open>Early start times\<close>

text \<open>
  Claim C10 (amended). For a start time before 00:40 the before window is computed as
  clock times on the target date, with \<open>before_start\<close> (the start time plus 23 hours 20
  minutes) later in the day than \<open>before_end\<close>. When all compared timestamps of the feed
  carry one common UTC offset (or none), no item lasting at most 23 hours 20 minutes
  passes the overlap test for that window: the filtered list and the before map are
  empty, the before count is 0, and the report has \<open>success = False\<close> and the negative
  message.
\<close>

theorem early_start_before_window:
  assumes "strptime_HM start_time = Some t" and "t < 40"
    and "strptime_ymd lib target_date = Some day"
    and "fetch_all_slots fd = Inr all"
    and "one_offset lib tz all"
    and "lasting_at_most lib (1400 * us_per_minute) all"
  shows "\<exists>r av. check_availability_programmatic lib fd target_date start_time = Returns r
      \<and> details r = Some av
      \<and> before_start av = strftime_HM (t + 1400) \<and> before_end av = start_time
      \<and> strptime_HM (before_start av) = Some (t + 1400)
      \<and> filter_squash_slots_by_time lib all target_date (before_start av) (before_end av) = Inr []
      \<and> before_court_info av = []
      \<and> before_slot_available r = Some 0 \<and> success r = False
      \<and> message r = ''There is no slots free before your booking''"
proof -
  obtain main_slots where
    c: "check_squash_availability lib fd target_date start_time
           = Inr \<lparr>main_court_info = get_squash_court_availability main_slots,
                  before_court_info = [],
                  main_start = start_time, main_end = strftime_HM (t + 40),
                  before_start = strftime_HM (t + 1400), before_end = start_time\<rparr>"
    using check_squash_availability_early [OF assms] by blast
  have p: "strptime_HM (strftime_HM (t + 1400)) = Some (t + 1400)"
    using assms(2) by (intro strptime_strftime) simp
  have b: "filter_squash_slots_by_time lib all target_date (strftime_HM (t + 1400)) start_time = Inr []"
    by (rule filter_inverted_empty [OF assms(3) p assms(1) assms(5) assms(6)]) simp
  obtain url where u: "build_booking_url lib target_date (strftime_HM (t + 1400)) = Inr url"
    using assms(3) p by (simp add: build_booking_url_def)
  have "check_availability_programmatic lib fd target_date start_time
        = Returns \<lparr>success = False, message = ''There is no slots free before your booking'',
             booking_url = url, error = None,
             main_slot_available = Some (count_available (get_squash_court_availability main_slots)),
             before_slot_available = Some 0,
             details = Some \<lparr>main_court_info = get_squash_court_availability main_slots,
                  before_court_info = [],
                  main_start = start_time, main_end = strftime_HM (t + 40),
                  before_start = strftime_HM (t + 1400), before_end = start_time\<rparr>\<rparr>"
    by (simp add: check_availability_programmatic_def c u count_available_def before_message_def)
  then show ?thesis
    using p b by simp
qed

theorem early_start_before_window_witness:
  "strptime_HM ''00:20'' = Some 20
   \<and> fetch_all_slots (one_page_feed [\<lparr>item_data = Some midnight_slot\<rparr>])
       = Inr [\<lparr>item_data = Some midnight_slot\<rparr>]
   \<and> map_option message (outcome_report
         (check_availability_programmatic example_lib
            (one_page_feed [\<lparr>item_data = Some midnight_slot\<rparr>]) ''2026-02-03'' ''00:20''))
       = Some ''There is no slots free before your booking''"
proof -
  have h1: "strptime_HM ''00:20'' = Some 20" by code_simp
  have h2: "strptime_ymd example_lib ''2026-02-03'' = Some 739650" by code_simp
  have h3: "fetch_all_slots (one_page_feed [\<lparr>item_data = Some midnight_slot\<rparr>])
       = Inr [\<lparr>item_data = Some midnight_slot\<rparr>]" by code_simp
  have h4: "one_offset example_lib (Some 0) [\<lparr>item_data = Some midnight_slot\<rparr>]" by code_simp
  have h5: "lasting_at_most example_lib (1400 * us_per_minute) [\<lparr>item_data = Some midnight_slot\<rparr>]"
    by code_simp
  have "(20::nat) < 40" by simp
  from early_start_before_window [OF h1 this h2 h3 h4 h5]
  obtain r where "check_availability_programmatic example_lib
            (one_page_feed [\<lparr>item_data = Some midnight_slot\<rparr>]) ''2026-02-03'' ''00:20'' = Returns r"
    and "message r = ''There is no slots free before your booking''"
    by blast
  then show ?thesis using h1 h3 by simp
qed

text \<open>
  Without the common offset the claim fails: the target bounds adopt the offsets of the
  first compared item, its start's for \<open>target_start\<close> and its end's for \<open>target_end\<close>.
  An item of 40 minutes whose start is written with +12:00 and whose end with -12:00 turns
  the bounds 23:40 and 00:20 into 11:40 and 12:20 UTC, and passes the test.
\<close>

theorem early_start_before_window_counterexample:
  "strptime_HM ''00:20'' = Some 20
   \<and> fetch_all_slots (one_page_feed [\<lparr>item_data = Some odd_offset_slot\<rparr>])
       = Inr [\<lparr>item_data = Some odd_offset_slot\<rparr>]
   \<and> lasting_at_most example_lib (40 * us_per_minute) [\<lparr>item_data = Some odd_offset_slot\<rparr>]
   \<and> map_option message (outcome_report
         (check_availability_programmatic example_lib
            (one_page_feed [\<lparr>item_data = Some odd_offset_slot\<rparr>]) ''2026-02-03'' ''00:20''))
       = Some ''There is one slot free before your booking''
   \<and> map_option before_slot_available (outcome_report
         (check_availability_programmatic example_lib
            (one_page_feed [\<lparr>item_data = Some odd_offset_slot\<rparr>]) ''2026-02-03'' ''00:20''))
       = Some (Some 1)"
proof (intro conjI)
  show "strptime_HM ''00:20'' = Some 20" by code_simp
  show "fetch_all_slots (one_page_feed [\<lparr>item_data = Some odd_offset_slot\<rparr>])
       = Inr [\<lparr>item_data = Some odd_offset_slot\<rparr>]" by code_simp
  show "lasting_at_most example_lib (40 * us_per_minute) [\<lparr>item_data = Some odd_offset_slot\<rparr>]"
    by code_simp
  show "map_option message (outcome_report
         (check_availability_programmatic example_lib
            (one_page_feed [\<lparr>item_data = Some odd_offset_slot\<rparr>]) ''2026-02-03'' ''00:20''))
       = Some ''There is one slot free before your booking''" by code_simp
  show "map_option before_slot_available (outcome_report
         (check_availability_programmatic example_lib
            (one_page_feed [\<lparr>item_data = Some odd_offset_slot\<rparr>]) ''2026-02-03'' ''00:20''))
       = Some (Some 1)" by code_simp
qed

subsection \<open>The report\<close>




lemma before_message_cases:
  "before_message 0 = ''There is no slots free before your booking''"
  "before_message 1 = ''There is one slot free before your booking''"
  "2 \<le> n \<Longrightarrow> before_message n = ''There are '' @ str_nat n @ '' slots free before your booking''"
  by (simp_all add: before_message_def)

text \<open>
  Claim C8 holds for the message and for the window labels, which are clock times:
  \<open>main_end\<close> is the start time plus 40 minutes and \<open>before_start\<close> the start time minus 40
  minutes, both modulo 24 hours; the message is the negative one for a before count of 0,
  the singular one for 1 and the plural one with the count from 2 on, with \<open>success\<close> true
  exactly from 1 on. The windows themselves are not 40 minutes long for every start time:
  both bounds are put on the target date, so for the start time 23:30 the main window
  ends at 00:10 of the same day, before it starts, and a free slot from 23:30 to 00:10 of
  the next day is not found in it.
\<close>

theorem windows_and_message:
  "(strptime_HM start_time = Some t
      \<and> check_squash_availability lib fd target_date start_time = Inr av \<longrightarrow>
        main_start av = start_time \<and> main_end av = strftime_HM ((t + 40) mod 1440)
        \<and> before_start av = strftime_HM (nat ((int t - 40) mod 1440)) \<and> before_end av = start_time)
   \<and> (check_availability_programmatic lib fd target_date start_time = Returns r
      \<and> details r = Some av \<longrightarrow>
        message r = before_message (count_available (before_court_info av))
        \<and> success r = (count_available (before_court_info av) > 0)
        \<and> before_slot_available r = Some (count_available (before_court_info av)))
   \<and> before_message 0 = ''There is no slots free before your booking''
   \<and> before_message 1 = ''There is one slot free before your booking''
   \<and> (2 \<le> n \<longrightarrow>
        before_message n = ''There are '' @ str_nat n @ '' slots free before your booking'')
   \<and> check_squash_availability example_lib (one_page_feed [\<lparr>item_data = Some late_slot\<rparr>])
         ''2026-02-03'' ''23:30''
       = Inr \<lparr>main_court_info = [], before_court_info = [], main_start = ''23:30'',
              main_end = ''00:10'', before_start = ''22:50'', before_end = ''23:30''\<rparr>
   \<and> slot_times example_lib \<lparr>item_data = Some late_slot\<rparr>
       = Some (at_minute 739650 1410 0, at_minute 739651 10 0)
   \<and> parse_datetime example_lib ''2026-02-03'' ''23:30''
       = Inr \<lparr>local_us = 739650 * us_per_day + 1410 * us_per_minute, utcoffset = None\<rparr>
   \<and> parse_datetime example_lib ''2026-02-03'' ''00:10''
       = Inr \<lparr>local_us = 739650 * us_per_day + 10 * us_per_minute, utcoffset = None\<rparr>"
proof (intro conjI impI)
  assume a: "strptime_HM start_time = Some t
      \<and> check_squash_availability lib fd target_date start_time = Inr av"
  then have w: "main_start av = start_time \<and> main_end av = strftime_HM ((t + 40) mod 1440)
       \<and> before_start av = strftime_HM (nat ((int t - 40) mod 1440)) \<and> before_end av = start_time"
    by (intro check_windows [of start_time t lib fd target_date av]) simp_all
  from w show "main_start av = start_time" by simp
  from w show "main_end av = strftime_HM ((t + 40) mod 1440)" by simp
  from w show "before_start av = strftime_HM (nat ((int t - 40) mod 1440))" by simp
  from w show "before_end av = start_time" by simp
next
  assume a: "check_availability_programmatic lib fd target_date start_time = Returns r
      \<and> details r = Some av"
  then have m: "check_squash_availability lib fd target_date start_time = Inr av
       \<and> message r = before_message (count_available (before_court_info av))
       \<and> success r = (count_available (before_court_info av) > 0)
       \<and> before_slot_available r = Some (count_available (before_court_info av))
       \<and> main_slot_available r = Some (count_available (main_court_info av))"
    by (intro returned_report) simp_all
  from m show "message r = before_message (count_available (before_court_info av))" by simp
  from m show "success r = (count_available (before_court_info av) > 0)" by simp
  from m show "before_slot_available r = Some (count_available (before_court_info av))" by simp
next
  show "before_message 0 = ''There is no slots free before your booking''"
    by (rule before_message_cases)
next
  show "before_message 1 = ''There is one slot free before your booking''"
    by (rule before_message_cases)
next
  assume "2 \<le> n"
  then show "before_message n = ''There are '' @ str_nat n @ '' slots free before your booking''"
    by (rule before_message_cases)
next
  show "check_squash_availability example_lib (one_page_feed [\<lparr>item_data = Some late_slot\<rparr>])
         ''2026-02-03'' ''23:30''
       = Inr \<lparr>main_court_info = [], before_court_info = [], main_start = ''23:30'',
              main_end = ''00:10'', before_start = ''22:50'', before_end = ''23:30''\<rparr>"
    by code_simp
next
  show "slot_times example_lib \<lparr>item_data = Some late_slot\<rparr>
       = Some (at_minute 739650 1410 0, at_minute 739651 10 0)"
    by code_simp
next
  show "parse_datetime example_lib ''2026-02-03'' ''23:30''
       = Inr \<lparr>local_us = 739650 * us_per_day + 1410 * us_per_minute, utcoffset = None\<rparr>"
    by code_simp
next
  show "parse_datetime example_lib ''2026-02-03'' ''00:10''
       = Inr \<lparr>local_us = 739650 * us_per_day + 10 * us_per_minute, utcoffset = None\<rparr>"
    by code_simp
qed

theorem windows_and_message_witness:
  "(\<exists>av. check_squash_availability example_lib (one_page_feed [\<lparr>item_data = Some free_slot\<rparr>])
            ''2026-02-03'' ''10:00'' = Inr av
         \<and> main_start av = ''10:00'' \<and> main_end av = ''10:40''
         \<and> before_start av = ''09:20'' \<and> before_end av = ''10:00'')
   \<and> (\<exists>r. check_availability_programmatic example_lib (one_page_feed [\<lparr>item_data = Some early_slot\<rparr>])
            ''2026-02-03'' ''09:20'' = Returns r
         \<and> message r = ''There is one slot free before your booking'' \<and> success r)
   \<and> before_message 2 = ''There are 2 slots free before your booking''"
proof -
  have h: "strptime_HM ''10:00'' = Some 600" by code_simp
  have "\<not> isl (check_squash_availability example_lib (one_page_feed [\<lparr>item_data = Some free_slot\<rparr>])
            ''2026-02-03'' ''10:00'')"
    by code_simp
  then obtain av where av: "check_squash_availability example_lib
      (one_page_feed [\<lparr>item_data = Some free_slot\<rparr>]) ''2026-02-03'' ''10:00'' = Inr av"
    by (cases "check_squash_availability example_lib
      (one_page_feed [\<lparr>item_data = Some free_slot\<rparr>]) ''2026-02-03'' ''10:00''") simp_all
  have f: "strftime_HM ((600 + 40) mod 1440) = ''10:40''"
    "strftime_HM (nat ((int 600 - 40) mod 1440)) = ''09:20''"
    by code_simp+
  have w: "main_start av = ''10:00'' \<and> main_end av = ''10:40''
         \<and> before_start av = ''09:20'' \<and> before_end av = ''10:00''"
    using windows_and_message [where start_time = "''10:00''" and t = 600 and lib = example_lib
        and fd = "one_page_feed [\<lparr>item_data = Some free_slot\<rparr>]" and target_date = "''2026-02-03''"
        and av = av] h av f
    by simp
  have d: "map_option (\<lambda>r. map_option (\<lambda>a. count_available (before_court_info a)) (details r))
      (outcome_report (check_availability_programmatic example_lib
         (one_page_feed [\<lparr>item_data = Some early_slot\<rparr>]) ''2026-02-03'' ''09:20''))
      = Some (Some 1)"
    by code_simp
  then obtain r a where r: "check_availability_programmatic example_lib
         (one_page_feed [\<lparr>item_data = Some early_slot\<rparr>]) ''2026-02-03'' ''09:20'' = Returns r"
    and a: "details r = Some a" and c: "count_available (before_court_info a) = 1"
    by (cases "check_availability_programmatic example_lib
         (one_page_feed [\<lparr>item_data = Some early_slot\<rparr>]) ''2026-02-03'' ''09:20''") auto
  have m: "message r = ''There is one slot free before your booking'' \<and> success r"
    using windows_and_message [where lib = example_lib
        and fd = "one_page_feed [\<lparr>item_data = Some early_slot\<rparr>]" and target_date = "''2026-02-03''"
        and start_time = "''09:20''" and r = r and av = a] r a c
    by simp
  have p: "before_message 2 = ''There are 2 slots free before your booking''"
    by code_simp
  from av w r m p show ?thesis by blast
qed

end
